theory Spec2Isabelle
  imports Complex_Main "HOL-Library.Multiset"
begin

section \<open>Data model\<close>

text \<open>
  An instant is a number of seconds since the epoch, in UTC; a calendar date is a number
  of days since the epoch. Measured values are JSON numbers; they are modelled as real
  numbers, so a product or a mean below is the exact one (the program computes it in
  binary floating point).
\<close>

type_synonym instant = int
type_synonym date = int

definition date_of :: "instant \<Rightarrow> date" where
  \<comment> \<open>\<open>Timestamp.date()\<close> and \<open>Series.dt.date\<close>: the calendar day an instant falls in.\<close>
  "date_of t = t div 86400"


text \<open>
  A key of a JSON object is missing, or holds \<open>null\<close>, or holds a value. A raw record of
  the measurement API has the shape
  \<open>{period: {datetimeFrom: {utc: string}}, value: number, parameter: {units: string}}\<close>,
  where every key at every level may be missing or \<open>null\<close>.
\<close>

datatype 'a field = Missing | Null | Present 'a

type_synonym datetime_obj = "string field"
  \<comment> \<open>the object \<open>{utc: ...}\<close>, given by its key \<open>utc\<close>\<close>
type_synonym period_obj = "datetime_obj field"
  \<comment> \<open>the object \<open>{datetimeFrom: ...}\<close>, given by its key \<open>datetimeFrom\<close>\<close>
type_synonym parameter_obj = "string field"
  \<comment> \<open>the object \<open>{units: ...}\<close>, given by its key \<open>units\<close>\<close>

record raw_record =
  period :: "period_obj field"
  rvalue :: "real field"
  parameter :: "parameter_obj field"

definition dict_get :: "'a field \<Rightarrow> 'a option" where
  \<comment> \<open>\<open>d.get(key)\<close>: \<open>None\<close> for a missing key and for a key that holds \<open>null\<close>.\<close>
  "dict_get f = (case f of Missing \<Rightarrow> None | Null \<Rightarrow> None | Present x \<Rightarrow> Some x)"

definition dict_get_default :: "'a \<Rightarrow> 'a field \<Rightarrow> 'a option" where
  \<comment> \<open>\<open>d.get(key, default)\<close>: the default for a missing key only.\<close>
  "dict_get_default dflt f =
     (case f of Missing \<Rightarrow> Some dflt | Null \<Rightarrow> None | Present x \<Rightarrow> Some x)"

text \<open>
  What one page request gives: any exception of the request, of \<open>raise_for_status\<close> or of
  the decoding of the body, or the list under the key \<open>results\<close> (empty when the key is
  missing).
\<close>

datatype response = TransportError | Page "raw_record list"

text \<open>
  What the body of the per-record \<open>try\<close> does with one record: it raises (and the
  \<open>except\<close> clause goes on to the next record), it leaves the record out without raising,
  or it appends one measurement.
\<close>

datatype 'a outcome = Raised | Skipped | Kept 'a

section \<open>Strings\<close>

definition lower_char :: "char \<Rightarrow> char" where
  "lower_char c =
     (let n = (of_char c :: nat) in if 65 \<le> n \<and> n \<le> 90 then char_of (n + 32) else c)"

definition lower :: "string \<Rightarrow> string" where
  \<comment> \<open>\<open>str.lower()\<close> on the letters A to Z; no other character lowers to p or m.\<close>
  "lower s = map lower_char s"

section \<open>Unit conversion\<close>

definition convert :: "string \<Rightarrow> string \<Rightarrow> real \<Rightarrow> real" where
  \<comment> \<open>\<open>extract_measurements_from_sensor\<close>, the conversion inside the record loop.\<close>
  "convert parameter_name unit v =
     (if lower unit = ''ppm'' then
        (if lower parameter_name = ''no2'' then v * 1880
         else if lower parameter_name = ''o3'' then v * 1960
         else if lower parameter_name = ''hcho'' then v * 1230
         else v)
      else v)"

definition convert_daily :: "string \<Rightarrow> string \<Rightarrow> real \<Rightarrow> real" where
  \<comment> \<open>\<open>extract_daily_measurements_from_sensor\<close>, the conversion inside the record loop.\<close>
  "convert_daily parameter_name unit v =
     (if lower unit = ''ppm'' then
        (if lower parameter_name = ''no2'' then v * 1880
         else if lower parameter_name = ''o3'' then v * 1960
         else v)
      else v)"

section \<open>Processing one record and one page\<close>

text \<open>
  \<open>pd.to_datetime\<close> is the library's parser: the model takes it as a parameter, a function
  from the timestamp string to the instant it denotes, \<open>None\<close> where the parser raises.
\<close>

definition process_record ::
  "(string \<Rightarrow> instant option) \<Rightarrow> string \<Rightarrow> raw_record \<Rightarrow> (instant \<times> real) outcome" where
  \<comment> \<open>\<open>extract_measurements_from_sensor\<close>, the body of the per-record \<open>try\<close>.\<close>
  "process_record to_datetime parameter_name record =
     (case dict_get_default Missing (period record) of
        None \<Rightarrow> Raised
      | Some period_d \<Rightarrow>
     (case dict_get_default Missing period_d of
        None \<Rightarrow> Raised
      | Some datetime_from \<Rightarrow>
     (case dict_get datetime_from of
        None \<Rightarrow> Skipped
      | Some timestamp_str \<Rightarrow>
     if timestamp_str = [] then Skipped else
     (case to_datetime timestamp_str of
        None \<Rightarrow> Raised
      | Some timestamp \<Rightarrow>
     (case dict_get_default Missing (parameter record) of
        None \<Rightarrow> Raised
      | Some parameter_d \<Rightarrow>
     (case dict_get (rvalue record) of
        None \<Rightarrow> Skipped
      | Some v \<Rightarrow>
     (case dict_get_default ''unknown'' parameter_d of
        None \<Rightarrow> Raised
      | Some unit \<Rightarrow> Kept (timestamp, convert parameter_name unit v))))))))"

definition process_record_daily ::
  "(string \<Rightarrow> instant option) \<Rightarrow> string \<Rightarrow> raw_record \<Rightarrow> (date \<times> real) outcome" where
  \<comment> \<open>\<open>extract_daily_measurements_from_sensor\<close>, the body of the per-record \<open>try\<close>.\<close>
  "process_record_daily to_datetime parameter_name record =
     (case dict_get_default Missing (period record) of
        None \<Rightarrow> Raised
      | Some period_d \<Rightarrow>
     (case dict_get_default Missing period_d of
        None \<Rightarrow> Raised
      | Some datetime_from \<Rightarrow>
     (case dict_get datetime_from of
        None \<Rightarrow> Skipped
      | Some timestamp_str \<Rightarrow>
     if timestamp_str = [] then Skipped else
     (case to_datetime timestamp_str of
        None \<Rightarrow> Raised
      | Some timestamp \<Rightarrow>
     (case dict_get_default Missing (parameter record) of
        None \<Rightarrow> Raised
      | Some parameter_d \<Rightarrow>
     (case dict_get (rvalue record) of
        None \<Rightarrow> Skipped
      | Some v \<Rightarrow>
     (case dict_get_default ''unknown'' parameter_d of
        None \<Rightarrow> Raised
      | Some unit \<Rightarrow> Kept (date_of timestamp, convert_daily parameter_name unit v))))))))"

text \<open>The \<open>for record in results\<close> loop: every kept measurement is appended.\<close>

fun process_results ::
  "(string \<Rightarrow> instant option) \<Rightarrow> string \<Rightarrow> (instant \<times> real) list \<Rightarrow> raw_record list
     \<Rightarrow> (instant \<times> real) list" where
  "process_results to_datetime parameter_name all_measurements [] = all_measurements"
| "process_results to_datetime parameter_name all_measurements (record # results) =
     process_results to_datetime parameter_name
       (case process_record to_datetime parameter_name record of
          Kept m \<Rightarrow> all_measurements @ [m]
        | Raised \<Rightarrow> all_measurements
        | Skipped \<Rightarrow> all_measurements)
       results"

fun process_results_daily ::
  "(string \<Rightarrow> instant option) \<Rightarrow> string \<Rightarrow> (date \<times> real) list \<Rightarrow> raw_record list
     \<Rightarrow> (date \<times> real) list" where
  "process_results_daily to_datetime parameter_name all_measurements [] = all_measurements"
| "process_results_daily to_datetime parameter_name all_measurements (record # results) =
     process_results_daily to_datetime parameter_name
       (case process_record_daily to_datetime parameter_name record of
          Kept m \<Rightarrow> all_measurements @ [m]
        | Raised \<Rightarrow> all_measurements
        | Skipped \<Rightarrow> all_measurements)
       results"

section \<open>The paginated fetch\<close>

text \<open>
  The source is a function from the page number to what the request of that page gives.
  The loop is modelled with the list of the page numbers it has requested, in order: the
  requests are the effect of the loop. Its result is \<open>None\<close> when a request raised (the
  outer \<open>except\<close> clause is entered), and the accumulated list otherwise.
\<close>

function fetch_loop ::
  "(string \<Rightarrow> instant option) \<Rightarrow> string \<Rightarrow> (nat \<Rightarrow> response) \<Rightarrow> int \<Rightarrow> nat
     \<Rightarrow> (instant \<times> real) list \<Rightarrow> nat list \<Rightarrow> (instant \<times> real) list option \<times> nat list" where
  "fetch_loop to_datetime parameter_name source target_points page all_measurements requested =
     (if \<not> int (length all_measurements) < target_points then (Some all_measurements, requested)
      else
        (case source page of
           TransportError \<Rightarrow> (None, requested @ [page])
         | Page results \<Rightarrow>
             if results = [] then (Some all_measurements, requested @ [page])
             else
               (let all_measurements' =
                      process_results to_datetime parameter_name all_measurements results
                in if int (length all_measurements') \<ge> target_points
                   then (Some all_measurements', requested @ [page])
                   else if page + 1 > 50 then (Some all_measurements', requested @ [page])
                   else fetch_loop to_datetime parameter_name source target_points (page + 1)
                          all_measurements' (requested @ [page]))))"
  by pat_completeness auto
termination
  by (relation "measure (\<lambda>(to_datetime, parameter_name, source, target_points, page,
        all_measurements, requested). 51 - page)") auto

function fetch_loop_daily ::
  "(string \<Rightarrow> instant option) \<Rightarrow> string \<Rightarrow> (nat \<Rightarrow> response) \<Rightarrow> int \<Rightarrow> nat
     \<Rightarrow> (date \<times> real) list \<Rightarrow> nat list \<Rightarrow> (date \<times> real) list option \<times> nat list" where
  "fetch_loop_daily to_datetime parameter_name source target_points page all_measurements requested =
     (if \<not> int (length all_measurements) < target_points then (Some all_measurements, requested)
      else
        (case source page of
           TransportError \<Rightarrow> (None, requested @ [page])
         | Page results \<Rightarrow>
             if results = [] then (Some all_measurements, requested @ [page])
             else
               (let all_measurements' =
                      process_results_daily to_datetime parameter_name all_measurements results
                in if int (length all_measurements') \<ge> target_points
                   then (Some all_measurements', requested @ [page])
                   else if page + 1 > 50 then (Some all_measurements', requested @ [page])
                   else fetch_loop_daily to_datetime parameter_name source target_points (page + 1)
                          all_measurements' (requested @ [page]))))"
  by pat_completeness auto
termination
  by (relation "measure (\<lambda>(to_datetime, parameter_name, source, target_points, page,
        all_measurements, requested). 51 - page)") auto

declare fetch_loop.simps [simp del] fetch_loop_daily.simps [simp del]

text \<open>
  \<open>df.iloc[start:]\<close> and \<open>df.tail(n)\<close>, as pandas defines them: a negative start counts
  from the end, and \<open>tail(0)\<close> is the empty frame.
\<close>

definition iloc_from :: "int \<Rightarrow> 'a list \<Rightarrow> 'a list" where
  "iloc_from start df =
     (let len = int (length df);
          s = (if start < 0 then max (len + start) 0 else min start len)
      in drop (nat s) df)"

definition tail_rows :: "int \<Rightarrow> 'a list \<Rightarrow> 'a list" where
  "tail_rows n df = (if n = 0 then [] else iloc_from (- n) df)"

text \<open>
  \<open>if len(df) > n: df = df.tail(n)\<close>, the trim that both fetch functions apply to a series
  and both drivers apply to the combined table.
\<close>

definition limit_rows :: "int \<Rightarrow> 'a list \<Rightarrow> 'a list" where
  "limit_rows n df = (if int (length df) > n then tail_rows n df else df)"

text \<open>
  \<open>df.sort_values(key)\<close> sorts with the library's default algorithm, which is not stable:
  the result has the rows of the frame in ascending order of the key, and the order of
  rows with equal keys is whatever the algorithm leaves. The model takes the sort as a
  parameter, a function on frames; \<open>sorts_by_key\<close> is what is known of it.
\<close>

definition sorts_by_key :: "((int \<times> real) list \<Rightarrow> (int \<times> real) list) \<Rightarrow> bool" where
  "sorts_by_key sort_values \<longleftrightarrow>
     (\<forall>df. sorted (map fst (sort_values df)) \<and> mset (sort_values df) = mset df)"

text \<open>The end of the \<open>try\<close> block: one sort by the key, then the trailing trim.\<close>

definition sort_and_trim ::
  "((int \<times> real) list \<Rightarrow> (int \<times> real) list) \<Rightarrow> int \<Rightarrow> (int \<times> real) list
     \<Rightarrow> (int \<times> real) list" where
  "sort_and_trim sort_values target_points all_measurements =
     (if length all_measurements > 0 then
        limit_rows target_points (sort_values all_measurements)
      else all_measurements)"

record fetch_result =
  series :: "(int \<times> real) list"
  requests :: "nat list"

definition extract_measurements_from_sensor ::
  "(string \<Rightarrow> instant option) \<Rightarrow> ((int \<times> real) list \<Rightarrow> (int \<times> real) list)
     \<Rightarrow> (nat \<Rightarrow> response) \<Rightarrow> string \<Rightarrow> int \<Rightarrow> fetch_result" where
  "extract_measurements_from_sensor to_datetime sort_values source parameter_name target_points =
     (case fetch_loop to_datetime parameter_name source target_points 1 [] [] of
        (None, requested) \<Rightarrow> \<lparr>series = [], requests = requested\<rparr>
      | (Some all_measurements, requested) \<Rightarrow>
          \<lparr>series = sort_and_trim sort_values target_points all_measurements, requests = requested\<rparr>)"

definition extract_daily_measurements_from_sensor ::
  "(string \<Rightarrow> instant option) \<Rightarrow> ((int \<times> real) list \<Rightarrow> (int \<times> real) list)
     \<Rightarrow> (nat \<Rightarrow> response) \<Rightarrow> string \<Rightarrow> int \<Rightarrow> fetch_result" where
  "extract_daily_measurements_from_sensor to_datetime sort_values source parameter_name target_points =
     (case fetch_loop_daily to_datetime parameter_name source target_points 1 [] [] of
        (None, requested) \<Rightarrow> \<lparr>series = [], requests = requested\<rparr>
      | (Some all_measurements, requested) \<Rightarrow>
          \<lparr>series = sort_and_trim sort_values target_points all_measurements, requests = requested\<rparr>)"

section \<open>Combining the series\<close>

text \<open>
  A row of the combined frame is its key and the cells of the columns added so far, in
  the order the columns were added; \<open>None\<close> is the missing value (NaN).
\<close>

type_synonym row = "int \<times> real option list"

definition py_sorted_set :: "int list \<Rightarrow> int list" where
  \<comment> \<open>\<open>sorted(list(s))\<close> for the set \<open>s\<close> of the given elements.\<close>
  "py_sorted_set xs = sort (remdups xs)"

definition merge_left :: "row list \<Rightarrow> (int \<times> real) list \<Rightarrow> row list" where
  \<comment> \<open>\<open>df_combined.merge(df, on=key, how="left")\<close>: one row per matching row of \<open>df\<close>,
      in the order of \<open>df\<close>, and one row with a missing cell where nothing matches.\<close>
  "merge_left df_combined df =
     concat (map (\<lambda>(t, cells).
       (let matches = map snd (filter (\<lambda>m. fst m = t) df)
        in if matches = [] then [(t, cells @ [None])]
           else map (\<lambda>v. (t, cells @ [Some v])) matches)) df_combined)"

definition nan_column :: "row list \<Rightarrow> row list" where
  \<comment> \<open>\<open>df_combined[column] = np.nan\<close>\<close>
  "nan_column df_combined = map (\<lambda>(t, cells). (t, cells @ [None])) df_combined"

definition add_column :: "row list \<Rightarrow> (int \<times> real) list \<Rightarrow> row list" where
  "add_column df_combined df =
     (if length df > 0 then merge_left df_combined df else nan_column df_combined)"

definition timestamps_of :: "(int \<times> real) list \<Rightarrow> int list" where
  \<comment> \<open>what \<open>if len(df) > 0: all_timestamps.update(df[key].tolist())\<close> adds to the set\<close>
  "timestamps_of df = (if length df > 0 then map fst df else [])"

definition combine_series ::
  "(instant \<times> real) list \<Rightarrow> (instant \<times> real) list \<Rightarrow> (instant \<times> real) list \<Rightarrow> row list" where
  \<comment> \<open>\<open>extract_1000_points_los_angeles\<close>, from the union of the timestamps to the last
      merge; the cells of a row are NO2, O3, HCHO.\<close>
  "combine_series df_no2 df_o3 df_hcho =
     (let all_timestamps = timestamps_of df_no2 @ timestamps_of df_o3 @ timestamps_of df_hcho;
          df_combined = map (\<lambda>t. (t, [])) (py_sorted_set all_timestamps)
      in add_column (add_column (add_column df_combined df_no2) df_o3) df_hcho)"

definition combine_series_daily ::
  "(date \<times> real) list \<Rightarrow> (date \<times> real) list \<Rightarrow> row list" where
  \<comment> \<open>\<open>extract_1000_daily_points_los_angeles\<close>, the same with two columns.\<close>
  "combine_series_daily df_no2 df_o3 =
     (let all_dates = timestamps_of df_no2 @ timestamps_of df_o3;
          df_combined = map (\<lambda>t. (t, [])) (py_sorted_set all_dates)
      in add_column (add_column df_combined df_no2) df_o3)"

definition trim_combined :: "row list \<Rightarrow> row list" where
  \<comment> \<open>\<open>extract_1000_points_los_angeles\<close>: \<open>if len(df_combined) > 10000: ... tail(10000)\<close>\<close>
  "trim_combined df_combined =
     (if length df_combined > 10000 then tail_rows 10000 df_combined else df_combined)"

definition trim_combined_daily :: "row list \<Rightarrow> row list" where
  \<comment> \<open>\<open>extract_1000_daily_points_los_angeles\<close>: \<open>if len(df_combined) > 1000: ... tail(1000)\<close>\<close>
  "trim_combined_daily df_combined =
     (if length df_combined > 1000 then tail_rows 1000 df_combined else df_combined)"

section \<open>Daily aggregation\<close>







section \<open>Auxiliary notions for the proofs\<close>

text \<open>The measurements one record contributes, and the accumulator after a list of pages.\<close>

definition kept_of :: "'a outcome \<Rightarrow> 'a list" where
  "kept_of oc = (case oc of Kept m \<Rightarrow> [m] | Raised \<Rightarrow> [] | Skipped \<Rightarrow> [])"

fun accumulate ::
  "(string \<Rightarrow> instant option) \<Rightarrow> string \<Rightarrow> (nat \<Rightarrow> response) \<Rightarrow> (instant \<times> real) list \<Rightarrow> nat list
     \<Rightarrow> (instant \<times> real) list" where
  "accumulate td pn src acc [] = acc"
| "accumulate td pn src acc (p # ps) =
     accumulate td pn src
       (case src p of Page rs \<Rightarrow> process_results td pn acc rs | TransportError \<Rightarrow> acc) ps"

fun accumulate_daily ::
  "(string \<Rightarrow> instant option) \<Rightarrow> string \<Rightarrow> (nat \<Rightarrow> response) \<Rightarrow> (date \<times> real) list \<Rightarrow> nat list
     \<Rightarrow> (date \<times> real) list" where
  "accumulate_daily td pn src acc [] = acc"
| "accumulate_daily td pn src acc (p # ps) =
     accumulate_daily td pn src
       (case src p of Page rs \<Rightarrow> process_results_daily td pn acc rs | TransportError \<Rightarrow> acc) ps"





section \<open>Example inputs\<close>

text \<open>
  A parser that knows one timestamp string, a well-formed record with that timestamp, a
  source whose first page holds that record and whose other requests fail, and a source
  that never runs out of pages.
\<close>

definition ex_to_datetime :: "string \<Rightarrow> instant option" where
  "ex_to_datetime s = (if s = ''2024-01-01T00:00:00Z'' then Some 1704067200 else None)"

definition ex_record :: raw_record where
  "ex_record = \<lparr>period = Present (Present (Present ''2024-01-01T00:00:00Z'')),
                 rvalue = Present 5, parameter = Present (Present ''ug/m3'')\<rparr>"

definition ex_failing_source :: "nat \<Rightarrow> response" where
  "ex_failing_source p = (if p = 1 then Page [ex_record] else TransportError)"

definition ex_endless_source :: "nat \<Rightarrow> response" where
  "ex_endless_source p = Page [ex_record]"

text \<open>A sort that keeps rows with equal keys in the order of the frame.\<close>

definition ex_sort_values :: "(int \<times> real) list \<Rightarrow> (int \<times> real) list" where
  "ex_sort_values df = sort_key fst df"

text \<open>A record whose timestamp string the parser does not know.\<close>

definition ex_bad_record :: raw_record where
  "ex_bad_record = \<lparr>period = Present (Present (Present ''yesterday at noon'')),
                     rvalue = Present 7, parameter = Present (Present ''ug/m3'')\<rparr>"

text \<open>
  A parser of tally marks (the instant is the number of marks), the record with \<open>i + 1\<close>
  marks and the value \<open>i\<close>, a page of such records in descending order of time, and a
  source with pages of 1000, 1000 and 200 of them, then empty pages. The 2200 timestamps
  are all different, and the second page is older than the first.
\<close>

definition ex_tally_datetime :: "string \<Rightarrow> instant option" where
  "ex_tally_datetime s = (if set s = {CHR ''I''} then Some (int (length s)) else None)"

definition ex_tally_record :: "nat \<Rightarrow> raw_record" where
  "ex_tally_record i = \<lparr>period = Present (Present (Present (replicate (Suc i) CHR ''I''))),
                         rvalue = Present (real i), parameter = Present (Present ''ug/m3'')\<rparr>"

definition ex_page :: "nat \<Rightarrow> nat \<Rightarrow> raw_record list" where
  "ex_page lo n = map ex_tally_record (rev [lo..<lo + n])"

definition ex_paged_source :: "nat \<Rightarrow> response" where
  "ex_paged_source p =
     (if p = 1 then Page (ex_page 1000 1000) else if p = 2 then Page (ex_page 0 1000)
      else if p = 3 then Page (ex_page 2000 200) else Page [])"

text \<open>A source whose only page holds two records of one day, the later one first.\<close>

definition ex_same_day_source :: "nat \<Rightarrow> response" where
  "ex_same_day_source p = (if p = 1 then Page [ex_tally_record 9, ex_tally_record 4] else Page [])"

text \<open>
  A combined table of \<open>n\<close> rows in ascending order, a record measured in ppm, and a
  measurement keyed by the calendar date of its timestamp.
\<close>

definition ex_table :: "nat \<Rightarrow> row list" where
  "ex_table n = map (\<lambda>i. (int i, [Some (real i), None])) [0..<n]"

definition ex_ppm_record :: raw_record where
  "ex_ppm_record = \<lparr>period = Present (Present (Present ''2024-01-01T00:00:00Z'')),
                     rvalue = Present 1, parameter = Present (Present ''ppm'')\<rparr>"

definition on_date :: "instant \<times> real \<Rightarrow> date \<times> real" where
  "on_date m = (date_of (fst m), snd m)"

text \<open>A source whose only page holds the same record twice.\<close>

definition ex_repeating_source :: "nat \<Rightarrow> response" where
  "ex_repeating_source p = (if p = 1 then Page [ex_record, ex_record] else Page [])"

section \<open>Properties of the unit conversion\<close>

lemma lower_ppm: "lower ''ppm'' = ''ppm''" "lower ''PPM'' = ''ppm''" "lower ''Ppm'' = ''ppm''"
  by code_simp+

lemma lower_names:
  "lower ''no2'' = ''no2''" "lower ''o3'' = ''o3''" "lower ''hcho'' = ''hcho''"
  "lower ''NO2'' = ''no2''" "lower ''HCHO'' = ''hcho''"
  by code_simp+

lemma lower_other_units: "lower ''ug/m3'' \<noteq> ''ppm''" "lower ''mg/m3'' \<noteq> ''ppm''"
  by code_simp+

lemma of_char_lower_char:
  "(of_char (lower_char c) :: nat) =
     (if 65 \<le> (of_char c :: nat) \<and> (of_char c :: nat) \<le> 90 then of_char c + 32 else of_char c)"
  by (simp add: lower_char_def Let_def)

lemma char_eq_code: "c = d \<longleftrightarrow> (of_char c :: nat) = of_char d"
  by simp

lemma lower_char_eq_p: "lower_char c = CHR ''p'' \<longleftrightarrow> c = CHR ''p'' \<or> c = CHR ''P''"
proof -
  have "lower_char c = CHR ''p'' \<longleftrightarrow> (of_char (lower_char c) :: nat) = 112"
    by (subst char_eq_code) simp
  also have "\<dots> \<longleftrightarrow> (of_char c :: nat) = 112 \<or> (of_char c :: nat) = 80"
    by (auto simp: of_char_lower_char)
  also have "\<dots> \<longleftrightarrow> c = CHR ''p'' \<or> c = CHR ''P''"
  proof -
    have "c = CHR ''p'' \<longleftrightarrow> (of_char c :: nat) = 112" by (subst char_eq_code) simp
    moreover have "c = CHR ''P'' \<longleftrightarrow> (of_char c :: nat) = 80" by (subst char_eq_code) simp
    ultimately show ?thesis by simp
  qed
  finally show ?thesis .
qed

lemma lower_char_eq_m: "lower_char c = CHR ''m'' \<longleftrightarrow> c = CHR ''m'' \<or> c = CHR ''M''"
proof -
  have "lower_char c = CHR ''m'' \<longleftrightarrow> (of_char (lower_char c) :: nat) = 109"
    by (subst char_eq_code) simp
  also have "\<dots> \<longleftrightarrow> (of_char c :: nat) = 109 \<or> (of_char c :: nat) = 77"
    by (auto simp: of_char_lower_char)
  also have "\<dots> \<longleftrightarrow> c = CHR ''m'' \<or> c = CHR ''M''"
  proof -
    have "c = CHR ''m'' \<longleftrightarrow> (of_char c :: nat) = 109" by (subst char_eq_code) simp
    moreover have "c = CHR ''M'' \<longleftrightarrow> (of_char c :: nat) = 77" by (subst char_eq_code) simp
    ultimately show ?thesis by simp
  qed
  finally show ?thesis .
qed

lemma lower_eq_ppm:
  "lower unit = ''ppm'' \<longleftrightarrow>
     unit \<in> {''ppm'', ''ppM'', ''pPm'', ''pPM'', ''Ppm'', ''PpM'', ''PPm'', ''PPM''}"
proof -
  have "lower unit = ''ppm'' \<longleftrightarrow>
      (\<exists>a b c. unit = [a, b, c] \<and> lower_char a = CHR ''p'' \<and> lower_char b = CHR ''p'' \<and>
         lower_char c = CHR ''m'')"
    by (auto simp: lower_def map_eq_Cons_conv)
  also have "\<dots> \<longleftrightarrow>
     unit \<in> {''ppm'', ''ppM'', ''pPm'', ''pPM'', ''Ppm'', ''PpM'', ''PPm'', ''PPM''}"
    unfolding lower_char_eq_p lower_char_eq_m by auto
  finally show ?thesis .
qed

text \<open>
  Claim C3. The conversion is a total function of the value, the unit string and the
  pollutant name. The unit is taken for ppm in any letter case, that is, for the eight
  spellings of ppm and for no other string. Then the value is multiplied by 1880 for NO2,
  by 1960 for O3 and by 1230 for HCHO; for every other unit string the value is returned
  unchanged. In particular one ppm of NO2 is 1880, and 5 ug/m3 of O3 stays 5.
\<close>

theorem convert_factors:
  "(lower unit = ''ppm'' \<longleftrightarrow>
      unit \<in> {''ppm'', ''ppM'', ''pPm'', ''pPM'', ''Ppm'', ''PpM'', ''PPm'', ''PPM''}) \<and>
   (lower unit = ''ppm'' \<and> lower pn = ''no2'' \<longrightarrow> convert pn unit v = v * 1880) \<and>
   (lower unit = ''ppm'' \<and> lower pn = ''o3'' \<longrightarrow> convert pn unit v = v * 1960) \<and>
   (lower unit = ''ppm'' \<and> lower pn = ''hcho'' \<longrightarrow> convert pn unit v = v * 1230) \<and>
   (lower unit \<noteq> ''ppm'' \<longrightarrow> convert pn unit v = v) \<and>
   convert ''no2'' ''ppm'' 1.0 = 1880.0 \<and>
   convert ''o3'' ''ug/m3'' 5.0 = 5.0"
proof (intro conjI)
  show "lower unit = ''ppm'' \<longleftrightarrow>
      unit \<in> {''ppm'', ''ppM'', ''pPm'', ''pPM'', ''Ppm'', ''PpM'', ''PPm'', ''PPM''}"
    by (rule lower_eq_ppm)
  show "lower unit = ''ppm'' \<and> lower pn = ''no2'' \<longrightarrow> convert pn unit v = v * 1880"
    by (simp add: convert_def)
  show "lower unit = ''ppm'' \<and> lower pn = ''o3'' \<longrightarrow> convert pn unit v = v * 1960"
    by (simp add: convert_def)
  show "lower unit = ''ppm'' \<and> lower pn = ''hcho'' \<longrightarrow> convert pn unit v = v * 1230"
    by (simp add: convert_def)
  show "lower unit \<noteq> ''ppm'' \<longrightarrow> convert pn unit v = v"
    by (simp add: convert_def)
  show "convert ''no2'' ''ppm'' 1.0 = 1880.0"
    by (simp add: convert_def lower_ppm lower_names)
  show "convert ''o3'' ''ug/m3'' 5.0 = 5.0"
    by (simp add: convert_def lower_other_units)
qed

theorem convert_factors_witness:
  "convert ''NO2'' ''PPM'' 2 = 3760 \<and> convert ''o3'' ''Ppm'' 2 = 3920 \<and>
   convert ''HCHO'' ''ppm'' 2 = 2460 \<and> convert ''no2'' ''mg/m3'' 2 = 2"
  using convert_factors [of "''PPM''" "''NO2''" 2] convert_factors [of "''Ppm''" "''o3''" 2]
    convert_factors [of "''ppm''" "''HCHO''" 2] convert_factors [of "''mg/m3''" "''no2''" 2]
  by (simp add: lower_ppm lower_names lower_other_units)

section \<open>The fetch loop, step by step\<close>

lemma process_results_append:
  "process_results td pn acc rs = acc @ concat (map (\<lambda>r. kept_of (process_record td pn r)) rs)"
  by (induction rs arbitrary: acc) (auto simp: kept_of_def split: outcome.splits)

lemma length_process_results: "length acc \<le> length (process_results td pn acc rs)"
  by (simp add: process_results_append)

lemma length_accumulate: "length acc \<le> length (accumulate td pn src acc ps)"
proof (induction ps arbitrary: acc)
  case Nil
  show ?case by simp
next
  case (Cons p ps)
  show ?case
  proof (cases "src p")
    case TransportError
    then show ?thesis using Cons.IH[of acc] by simp
  next
    case (Page rs)
    then show ?thesis
      using Cons.IH[of "process_results td pn acc rs"] length_process_results[of acc td pn rs]
      by simp
  qed
qed

lemma fetch_stop:
  "\<not> int (length acc) < tp \<Longrightarrow> fetch_loop td pn src tp page acc reqs = (Some acc, reqs)"
  by (simp add: fetch_loop.simps)

lemma fetch_error:
  "int (length acc) < tp \<Longrightarrow> src page = TransportError \<Longrightarrow>
   fetch_loop td pn src tp page acc reqs = (None, reqs @ [page])"
  by (simp add: fetch_loop.simps)

lemma fetch_empty:
  "int (length acc) < tp \<Longrightarrow> src page = Page [] \<Longrightarrow>
   fetch_loop td pn src tp page acc reqs = (Some acc, reqs @ [page])"
  by (simp add: fetch_loop.simps)

lemma fetch_reached:
  "int (length acc) < tp \<Longrightarrow> src page = Page rs \<Longrightarrow> rs \<noteq> [] \<Longrightarrow>
   tp \<le> int (length (process_results td pn acc rs)) \<Longrightarrow>
   fetch_loop td pn src tp page acc reqs = (Some (process_results td pn acc rs), reqs @ [page])"
  by (simp add: fetch_loop.simps[of td pn src tp page])

lemma fetch_ceiling:
  "int (length acc) < tp \<Longrightarrow> src page = Page rs \<Longrightarrow> rs \<noteq> [] \<Longrightarrow>
   int (length (process_results td pn acc rs)) < tp \<Longrightarrow> 50 \<le> page \<Longrightarrow>
   fetch_loop td pn src tp page acc reqs = (Some (process_results td pn acc rs), reqs @ [page])"
  by (simp add: fetch_loop.simps[of td pn src tp page])

lemma fetch_next:
  "int (length acc) < tp \<Longrightarrow> src page = Page rs \<Longrightarrow> rs \<noteq> [] \<Longrightarrow>
   int (length (process_results td pn acc rs)) < tp \<Longrightarrow> page < 50 \<Longrightarrow>
   fetch_loop td pn src tp page acc reqs =
     fetch_loop td pn src tp (page + 1) (process_results td pn acc rs) (reqs @ [page])"
  by (simp add: fetch_loop.simps[of td pn src tp page])

lemma fetch_loop_error_None:
  "src p = TransportError \<Longrightarrow> p \<in> set (snd (fetch_loop td pn src tp page acc reqs)) \<Longrightarrow>
   p \<notin> set reqs \<Longrightarrow> fst (fetch_loop td pn src tp page acc reqs) = None"
proof (induction td pn src tp page acc reqs rule: fetch_loop.induct)
  case (1 td pn src tp page acc reqs)
  show ?case
  proof (cases "int (length acc) < tp")
    case False
    then show ?thesis using "1.prems" by (simp add: fetch_stop)
  next
    case lt: True
    show ?thesis
    proof (cases "src page")
      case TransportError
      then show ?thesis using lt by (simp add: fetch_error)
    next
      case (Page rs)
      then have neq: "p \<noteq> page" using "1.prems"(1) by auto
      let ?acc' = "process_results td pn acc rs"
      show ?thesis
      proof (cases "rs = [] \<or> tp \<le> int (length ?acc') \<or> 50 \<le> page")
        case True
        then have "snd (fetch_loop td pn src tp page acc reqs) = reqs @ [page]"
          using lt Page by (auto simp add: fetch_loop.simps[of td pn src tp page] Let_def)
        then show ?thesis using "1.prems" neq by simp
      next
        case False
        then have eq: "fetch_loop td pn src tp page acc reqs
                 = fetch_loop td pn src tp (page + 1) ?acc' (reqs @ [page])"
          using lt Page by (simp add: fetch_next)
        have "fst (fetch_loop td pn src tp (page + 1) ?acc' (reqs @ [page])) = None"
          using "1.IH"[OF _ Page _ refl] lt False "1.prems" neq eq by simp
        then show ?thesis using eq by simp
      qed
    qed
  qed
qed

lemma fetch_loop_ceiling:
  "page \<le> 50 \<Longrightarrow> (\<And>p. page \<le> p \<Longrightarrow> p \<le> 50 \<Longrightarrow> \<exists>rs. src p = Page rs \<and> rs \<noteq> []) \<Longrightarrow>
   int (length (accumulate td pn src acc [page..<51])) < tp \<Longrightarrow>
   fetch_loop td pn src tp page acc reqs
     = (Some (accumulate td pn src acc [page..<51]), reqs @ [page..<51])"
proof (induction td pn src tp page acc reqs rule: fetch_loop.induct)
  case (1 td pn src tp page acc reqs)
  obtain rs where rs: "src page = Page rs" "rs \<noteq> []" using "1.prems"(1,2) by blast
  let ?acc' = "process_results td pn acc rs"
  have up: "[page..<51] = page # [page + 1..<51]" using "1.prems"(1) by (simp add: upt_rec[of page])
  have acc_eq: "accumulate td pn src acc [page..<51] = accumulate td pn src ?acc' [page + 1..<51]"
    by (simp add: up rs)
  have lt': "int (length ?acc') < tp"
    using length_accumulate[of ?acc' td pn src "[page + 1..<51]"] "1.prems"(3) acc_eq by simp
  have lt: "int (length acc) < tp"
    using length_process_results[of acc td pn rs] lt' by simp
  show ?case
  proof (cases "page = 50")
    case True
    then show ?thesis using lt lt' rs by (simp add: fetch_ceiling)
  next
    case False
    then have p: "page < 50" using "1.prems"(1) by simp
    have IH: "fetch_loop td pn src tp (page + 1) ?acc' (reqs @ [page])
        = (Some (accumulate td pn src ?acc' [page + 1..<51]), (reqs @ [page]) @ [page + 1..<51])"
    proof (rule "1.IH"[OF _ rs(1) rs(2) refl])
      show "\<not> \<not> int (length acc) < tp" using lt by simp
      show "\<not> tp \<le> int (length ?acc')" using lt' by simp
      show "\<not> 50 < page + 1" using p by simp
      show "page + 1 \<le> 50" using p by simp
      show "\<And>q. page + 1 \<le> q \<Longrightarrow> q \<le> 50 \<Longrightarrow> \<exists>rs. src q = Page rs \<and> rs \<noteq> []"
        using "1.prems"(2) by simp
      show "int (length (accumulate td pn src ?acc' [page + 1..<51])) < tp"
        using "1.prems"(3) acc_eq by simp
    qed
    have "fetch_loop td pn src tp page acc reqs
        = fetch_loop td pn src tp (page + 1) ?acc' (reqs @ [page])"
      using lt rs lt' p by (simp add: fetch_next)
    then show ?thesis using IH acc_eq up by simp
  qed
qed

lemma fetch_loop_cong:
  assumes "\<And>p. (src p = TransportError \<and> src' p = TransportError) \<or>
      (\<exists>rs rs'. src p = Page rs \<and> src' p = Page rs' \<and> (rs = [] \<longleftrightarrow> rs' = []) \<and>
         (\<forall>a. process_results td pn a rs = process_results td pn a rs'))"
  shows "fetch_loop td pn src tp page acc reqs = fetch_loop td pn src' tp page acc reqs"
  using assms
proof (induction td pn src tp page acc reqs rule: fetch_loop.induct)
  case (1 td pn src tp page acc reqs)
  note rel = "1.prems"
  show ?case
  proof (cases "int (length acc) < tp")
    case False
    then show ?thesis by (simp add: fetch_stop)
  next
    case lt: True
    show ?thesis
    proof (cases "src page")
      case TransportError
      then have "src' page = TransportError" using rel[of page] by auto
      then show ?thesis using lt TransportError by (simp add: fetch_error)
    next
      case (Page rs)
      then obtain rs' where rs': "src' page = Page rs'" "rs = [] \<longleftrightarrow> rs' = []"
        "\<And>a. process_results td pn a rs = process_results td pn a rs'"
        using rel[of page] by auto
      let ?acc' = "process_results td pn acc rs"
      have acc': "process_results td pn acc rs' = ?acc'" using rs'(3) by simp
      show ?thesis
      proof (cases "rs = []")
        case True
        then show ?thesis using lt Page rs' by (simp add: fetch_empty)
      next
        case ne: False
        then have ne': "rs' \<noteq> []" using rs'(2) by simp
        show ?thesis
        proof (cases "tp \<le> int (length ?acc')")
          case True
          then show ?thesis
            using lt Page ne rs'(1) ne' acc'
            by (simp add: fetch_loop.simps[of td pn _ tp page])
        next
          case False
          then have lt': "int (length ?acc') < tp" by simp
          show ?thesis
          proof (cases "50 \<le> page")
            case True
            then show ?thesis
              using lt Page ne rs'(1) ne' acc' lt'
              by (simp add: fetch_loop.simps[of td pn _ tp page])
          next
            case False
            then have p: "page < 50" by simp
            have "fetch_loop td pn src tp (page + 1) ?acc' (reqs @ [page])
                = fetch_loop td pn src' tp (page + 1) ?acc' (reqs @ [page])"
              using "1.IH"[OF _ Page ne refl] lt lt' p rel by simp
            then show ?thesis
              using lt Page ne rs'(1) ne' acc' lt' p
              by (simp add: fetch_loop.simps[of td pn _ tp page])
          qed
        qed
      qed
    qed
  qed
qed

subsection \<open>The same for the daily variant\<close>

lemma process_results_append_daily:
  "process_results_daily td pn acc rs = acc @ concat (map (\<lambda>r. kept_of (process_record_daily td pn r)) rs)"
  by (induction rs arbitrary: acc) (auto simp: kept_of_def split: outcome.splits)

lemma length_process_results_daily: "length acc \<le> length (process_results_daily td pn acc rs)"
  by (simp add: process_results_append_daily)

lemma length_accumulate_daily: "length acc \<le> length (accumulate_daily td pn src acc ps)"
proof (induction ps arbitrary: acc)
  case Nil
  show ?case by simp
next
  case (Cons p ps)
  show ?case
  proof (cases "src p")
    case TransportError
    then show ?thesis using Cons.IH[of acc] by simp
  next
    case (Page rs)
    then show ?thesis
      using Cons.IH[of "process_results_daily td pn acc rs"] length_process_results_daily[of acc td pn rs]
      by simp
  qed
qed

lemma fetch_stop_daily:
  "\<not> int (length acc) < tp \<Longrightarrow> fetch_loop_daily td pn src tp page acc reqs = (Some acc, reqs)"
  by (simp add: fetch_loop_daily.simps)

lemma fetch_error_daily:
  "int (length acc) < tp \<Longrightarrow> src page = TransportError \<Longrightarrow>
   fetch_loop_daily td pn src tp page acc reqs = (None, reqs @ [page])"
  by (simp add: fetch_loop_daily.simps)

lemma fetch_empty_daily:
  "int (length acc) < tp \<Longrightarrow> src page = Page [] \<Longrightarrow>
   fetch_loop_daily td pn src tp page acc reqs = (Some acc, reqs @ [page])"
  by (simp add: fetch_loop_daily.simps)

lemma fetch_reached_daily:
  "int (length acc) < tp \<Longrightarrow> src page = Page rs \<Longrightarrow> rs \<noteq> [] \<Longrightarrow>
   tp \<le> int (length (process_results_daily td pn acc rs)) \<Longrightarrow>
   fetch_loop_daily td pn src tp page acc reqs = (Some (process_results_daily td pn acc rs), reqs @ [page])"
  by (simp add: fetch_loop_daily.simps[of td pn src tp page])

lemma fetch_ceiling_daily:
  "int (length acc) < tp \<Longrightarrow> src page = Page rs \<Longrightarrow> rs \<noteq> [] \<Longrightarrow>
   int (length (process_results_daily td pn acc rs)) < tp \<Longrightarrow> 50 \<le> page \<Longrightarrow>
   fetch_loop_daily td pn src tp page acc reqs = (Some (process_results_daily td pn acc rs), reqs @ [page])"
  by (simp add: fetch_loop_daily.simps[of td pn src tp page])

lemma fetch_next_daily:
  "int (length acc) < tp \<Longrightarrow> src page = Page rs \<Longrightarrow> rs \<noteq> [] \<Longrightarrow>
   int (length (process_results_daily td pn acc rs)) < tp \<Longrightarrow> page < 50 \<Longrightarrow>
   fetch_loop_daily td pn src tp page acc reqs =
     fetch_loop_daily td pn src tp (page + 1) (process_results_daily td pn acc rs) (reqs @ [page])"
  by (simp add: fetch_loop_daily.simps[of td pn src tp page])

lemma fetch_loop_error_None_daily:
  "src p = TransportError \<Longrightarrow> p \<in> set (snd (fetch_loop_daily td pn src tp page acc reqs)) \<Longrightarrow>
   p \<notin> set reqs \<Longrightarrow> fst (fetch_loop_daily td pn src tp page acc reqs) = None"
proof (induction td pn src tp page acc reqs rule: fetch_loop_daily.induct)
  case (1 td pn src tp page acc reqs)
  show ?case
  proof (cases "int (length acc) < tp")
    case False
    then show ?thesis using "1.prems" by (simp add: fetch_stop_daily)
  next
    case lt: True
    show ?thesis
    proof (cases "src page")
      case TransportError
      then show ?thesis using lt by (simp add: fetch_error_daily)
    next
      case (Page rs)
      then have neq: "p \<noteq> page" using "1.prems"(1) by auto
      let ?acc' = "process_results_daily td pn acc rs"
      show ?thesis
      proof (cases "rs = [] \<or> tp \<le> int (length ?acc') \<or> 50 \<le> page")
        case True
        then have "snd (fetch_loop_daily td pn src tp page acc reqs) = reqs @ [page]"
          using lt Page by (auto simp add: fetch_loop_daily.simps[of td pn src tp page] Let_def)
        then show ?thesis using "1.prems" neq by simp
      next
        case False
        then have eq: "fetch_loop_daily td pn src tp page acc reqs
                 = fetch_loop_daily td pn src tp (page + 1) ?acc' (reqs @ [page])"
          using lt Page by (simp add: fetch_next_daily)
        have "fst (fetch_loop_daily td pn src tp (page + 1) ?acc' (reqs @ [page])) = None"
          using "1.IH"[OF _ Page _ refl] lt False "1.prems" neq eq by simp
        then show ?thesis using eq by simp
      qed
    qed
  qed
qed

lemma fetch_loop_ceiling_daily:
  "page \<le> 50 \<Longrightarrow> (\<And>p. page \<le> p \<Longrightarrow> p \<le> 50 \<Longrightarrow> \<exists>rs. src p = Page rs \<and> rs \<noteq> []) \<Longrightarrow>
   int (length (accumulate_daily td pn src acc [page..<51])) < tp \<Longrightarrow>
   fetch_loop_daily td pn src tp page acc reqs
     = (Some (accumulate_daily td pn src acc [page..<51]), reqs @ [page..<51])"
proof (induction td pn src tp page acc reqs rule: fetch_loop_daily.induct)
  case (1 td pn src tp page acc reqs)
  obtain rs where rs: "src page = Page rs" "rs \<noteq> []" using "1.prems"(1,2) by blast
  let ?acc' = "process_results_daily td pn acc rs"
  have up: "[page..<51] = page # [page + 1..<51]" using "1.prems"(1) by (simp add: upt_rec[of page])
  have acc_eq: "accumulate_daily td pn src acc [page..<51] = accumulate_daily td pn src ?acc' [page + 1..<51]"
    by (simp add: up rs)
  have lt': "int (length ?acc') < tp"
    using length_accumulate_daily[of ?acc' td pn src "[page + 1..<51]"] "1.prems"(3) acc_eq by simp
  have lt: "int (length acc) < tp"
    using length_process_results_daily[of acc td pn rs] lt' by simp
  show ?case
  proof (cases "page = 50")
    case True
    then show ?thesis using lt lt' rs by (simp add: fetch_ceiling_daily)
  next
    case False
    then have p: "page < 50" using "1.prems"(1) by simp
    have IH: "fetch_loop_daily td pn src tp (page + 1) ?acc' (reqs @ [page])
        = (Some (accumulate_daily td pn src ?acc' [page + 1..<51]), (reqs @ [page]) @ [page + 1..<51])"
    proof (rule "1.IH"[OF _ rs(1) rs(2) refl])
      show "\<not> \<not> int (length acc) < tp" using lt by simp
      show "\<not> tp \<le> int (length ?acc')" using lt' by simp
      show "\<not> 50 < page + 1" using p by simp
      show "page + 1 \<le> 50" using p by simp
      show "\<And>q. page + 1 \<le> q \<Longrightarrow> q \<le> 50 \<Longrightarrow> \<exists>rs. src q = Page rs \<and> rs \<noteq> []"
        using "1.prems"(2) by simp
      show "int (length (accumulate_daily td pn src ?acc' [page + 1..<51])) < tp"
        using "1.prems"(3) acc_eq by simp
    qed
    have "fetch_loop_daily td pn src tp page acc reqs
        = fetch_loop_daily td pn src tp (page + 1) ?acc' (reqs @ [page])"
      using lt rs lt' p by (simp add: fetch_next_daily)
    then show ?thesis using IH acc_eq up by simp
  qed
qed

lemma fetch_loop_cong_daily:
  assumes "\<And>p. (src p = TransportError \<and> src' p = TransportError) \<or>
      (\<exists>rs rs'. src p = Page rs \<and> src' p = Page rs' \<and> (rs = [] \<longleftrightarrow> rs' = []) \<and>
         (\<forall>a. process_results_daily td pn a rs = process_results_daily td pn a rs'))"
  shows "fetch_loop_daily td pn src tp page acc reqs = fetch_loop_daily td pn src' tp page acc reqs"
  using assms
proof (induction td pn src tp page acc reqs rule: fetch_loop_daily.induct)
  case (1 td pn src tp page acc reqs)
  note rel = "1.prems"
  show ?case
  proof (cases "int (length acc) < tp")
    case False
    then show ?thesis by (simp add: fetch_stop_daily)
  next
    case lt: True
    show ?thesis
    proof (cases "src page")
      case TransportError
      then have "src' page = TransportError" using rel[of page] by auto
      then show ?thesis using lt TransportError by (simp add: fetch_error_daily)
    next
      case (Page rs)
      then obtain rs' where rs': "src' page = Page rs'" "rs = [] \<longleftrightarrow> rs' = []"
        "\<And>a. process_results_daily td pn a rs = process_results_daily td pn a rs'"
        using rel[of page] by auto
      let ?acc' = "process_results_daily td pn acc rs"
      have acc': "process_results_daily td pn acc rs' = ?acc'" using rs'(3) by simp
      show ?thesis
      proof (cases "rs = []")
        case True
        then show ?thesis using lt Page rs' by (simp add: fetch_empty_daily)
      next
        case ne: False
        then have ne': "rs' \<noteq> []" using rs'(2) by simp
        show ?thesis
        proof (cases "tp \<le> int (length ?acc')")
          case True
          then show ?thesis
            using lt Page ne rs'(1) ne' acc'
            by (simp add: fetch_loop_daily.simps[of td pn _ tp page])
        next
          case False
          then have lt': "int (length ?acc') < tp" by simp
          show ?thesis
          proof (cases "50 \<le> page")
            case True
            then show ?thesis
              using lt Page ne rs'(1) ne' acc' lt'
              by (simp add: fetch_loop_daily.simps[of td pn _ tp page])
          next
            case False
            then have p: "page < 50" by simp
            have "fetch_loop_daily td pn src tp (page + 1) ?acc' (reqs @ [page])
                = fetch_loop_daily td pn src' tp (page + 1) ?acc' (reqs @ [page])"
              using "1.IH"[OF _ Page ne refl] lt lt' p rel by simp
            then show ?thesis
              using lt Page ne rs'(1) ne' acc' lt' p
              by (simp add: fetch_loop_daily.simps[of td pn _ tp page])
          qed
        qed
      qed
    qed
  qed
qed

section \<open>The example inputs, evaluated\<close>

lemma ex_record_kept: "process_record ex_to_datetime ''no2'' ex_record = Kept (1704067200, 5)"
  by (simp add: process_record_def ex_record_def ex_to_datetime_def dict_get_def
      dict_get_default_def convert_def lower_other_units)

lemma ex_record_kept_daily:
  "process_record_daily ex_to_datetime ''no2'' ex_record = Kept (19723, 5)"
  by (simp add: process_record_daily_def ex_record_def ex_to_datetime_def dict_get_def
      dict_get_default_def convert_daily_def lower_other_units date_of_def)

lemma tail_rows_drop:
  assumes "0 < n" "n \<le> int (length df)"
  shows "tail_rows n df = drop (length df - nat n) df"
proof -
  have "nat (int (length df) - n) = length df - nat n" using assms by linarith
  then show ?thesis using assms by (simp add: tail_rows_def iloc_from_def Let_def max_def)
qed

lemma limit_rows_drop:
  assumes "0 \<le> n"
  shows "limit_rows n df = drop (length df - nat n) df"
proof (cases "n < int (length df)")
  case True
  then show ?thesis using assms
    by (cases "n = 0") (simp_all add: limit_rows_def tail_rows_drop, simp add: tail_rows_def)
next
  case False
  then have "length df - nat n = 0" using assms by linarith
  then show ?thesis using False by (simp add: limit_rows_def)
qed

lemma sorts_by_key_stable: "sorts_by_key (sort_key fst)" "sorts_by_key ex_sort_values"
  by (simp_all add: sorts_by_key_def ex_sort_values_def)

lemma sorts_by_key_sorted: "sorts_by_key srt \<Longrightarrow> sorted (map fst (srt df))"
  by (simp add: sorts_by_key_def)

lemma sorts_by_key_mset: "sorts_by_key srt \<Longrightarrow> mset (srt df) = mset df"
  by (simp add: sorts_by_key_def)

lemma sorts_by_key_length: "sorts_by_key srt \<Longrightarrow> length (srt df) = length df"
  using sorts_by_key_mset[of srt df] by (metis size_mset)

lemma sort_and_trim_small:
  assumes "sorts_by_key srt" "int (length acc) \<le> tp"
  shows "sorted (map fst (sort_and_trim srt tp acc))" "mset (sort_and_trim srt tp acc) = mset acc"
  using assms
  by (simp_all add: sort_and_trim_def limit_rows_def sorts_by_key_sorted sorts_by_key_mset
      sorts_by_key_length)

section \<open>Transport errors\<close>

text \<open>
  Claim C1, as stated, fails. The first page of the example source gives one measurement
  and the request of the second page fails: the claim has the fetch return that one
  measurement, and the function returns the empty series.
\<close>

theorem transport_error_loses_accumulated:
  "ex_failing_source 2 = TransportError \<and>
   accumulate ex_to_datetime ''no2'' ex_failing_source [] [1] = [(1704067200, 5)] \<and>
   requests (extract_measurements_from_sensor ex_to_datetime ex_sort_values ex_failing_source ''no2'' 2) = [1, 2] \<and>
   series (extract_measurements_from_sensor ex_to_datetime ex_sort_values ex_failing_source ''no2'' 2) = [] \<and>
   series (extract_measurements_from_sensor ex_to_datetime ex_sort_values ex_failing_source ''no2'' 2)
     \<noteq> sort_and_trim ex_sort_values 2
         (accumulate ex_to_datetime ''no2'' ex_failing_source [] [1])"
  by (simp add: extract_measurements_from_sensor_def fetch_loop.simps[of _ _ _ _ "Suc 0"]
      sort_and_trim_def limit_rows_def ex_sort_values_def
      fetch_loop.simps[of _ _ _ _ "Suc (Suc 0)"] fetch_loop.simps[of _ _ _ _ 2]
      ex_failing_source_def ex_record_kept)

text \<open>
  Claim C1, amended. Whenever a page that the fetch requests raises a transport error,
  the fetch (the sub-daily and the daily one alike) returns the empty series: what the
  earlier pages accumulated is discarded. The error is not propagated: the function
  returns a series for every source.
\<close>

theorem transport_error_gives_empty_series:
  "(src p = TransportError \<and>
      p \<in> set (requests (extract_measurements_from_sensor td srt src pn tp)) \<longrightarrow>
      series (extract_measurements_from_sensor td srt src pn tp) = []) \<and>
   (src p = TransportError \<and>
      p \<in> set (requests (extract_daily_measurements_from_sensor td srt src pn tp)) \<longrightarrow>
      series (extract_daily_measurements_from_sensor td srt src pn tp) = [])"
proof (intro conjI impI)
  assume a: "src p = TransportError \<and>
      p \<in> set (requests (extract_measurements_from_sensor td srt src pn tp))"
  obtain res reqs where r: "fetch_loop td pn src tp 1 [] [] = (res, reqs)"
    by (cases "fetch_loop td pn src tp 1 [] []")
  have "p \<in> set reqs" using a r
    by (cases res) (simp_all add: extract_measurements_from_sensor_def)
  then have "res = None"
    using fetch_loop_error_None[of src p td pn tp 1 "[]" "[]"] a r by simp
  then show "series (extract_measurements_from_sensor td srt src pn tp) = []"
    using r by (simp add: extract_measurements_from_sensor_def)
next
  assume a: "src p = TransportError \<and>
      p \<in> set (requests (extract_daily_measurements_from_sensor td srt src pn tp))"
  obtain res reqs where r: "fetch_loop_daily td pn src tp 1 [] [] = (res, reqs)"
    by (cases "fetch_loop_daily td pn src tp 1 [] []")
  have "p \<in> set reqs" using a r
    by (cases res) (simp_all add: extract_daily_measurements_from_sensor_def)
  then have "res = None"
    using fetch_loop_error_None_daily[of src p td pn tp 1 "[]" "[]"] a r by simp
  then show "series (extract_daily_measurements_from_sensor td srt src pn tp) = []"
    using r by (simp add: extract_daily_measurements_from_sensor_def)
qed

lemma ex_failing_requests_daily:
  "requests (extract_daily_measurements_from_sensor ex_to_datetime ex_sort_values ex_failing_source ''no2'' 2) = [1, 2]"
  by code_simp

lemma ex_failing_requests:
  "requests (extract_measurements_from_sensor ex_to_datetime ex_sort_values ex_failing_source ''no2'' 2) = [1, 2]"
  by (simp add: extract_measurements_from_sensor_def fetch_loop.simps[of _ _ _ _ "Suc 0"]
      fetch_loop.simps[of _ _ _ _ "Suc (Suc 0)"] fetch_loop.simps[of _ _ _ _ 2]
      ex_failing_source_def ex_record_kept)

theorem transport_error_gives_empty_series_witness:
  "series (extract_measurements_from_sensor ex_to_datetime ex_sort_values ex_failing_source ''no2'' 2) = [] \<and>
   series (extract_daily_measurements_from_sensor ex_to_datetime ex_sort_values ex_failing_source ''no2'' 2) = []"
  using transport_error_gives_empty_series
      [of ex_failing_source 2 ex_to_datetime ex_sort_values "''no2''" 2]
  by (simp add: ex_failing_requests ex_failing_requests_daily ex_failing_source_def)

section \<open>The page ceiling\<close>

lemma fetch_loop_requests:
  "page \<le> 50 \<Longrightarrow> \<exists>n. snd (fetch_loop td pn src tp page acc reqs) = reqs @ [page..<page + n] \<and> page + n \<le> 51"
proof (induction td pn src tp page acc reqs rule: fetch_loop.induct)
  case (1 td pn src tp page acc reqs)
  have one: "reqs @ [page] = reqs @ [page..<page + 1]" by simp
  show ?case
  proof (cases "int (length acc) < tp")
    case False
    then have "snd (fetch_loop td pn src tp page acc reqs) = reqs @ [page..<page + 0]"
      by (simp add: fetch_loop.simps)
    then show ?thesis using "1.prems" by (intro exI[of _ 0]) simp
  next
    case lt: True
    show ?thesis
    proof (cases "src page")
      case TransportError
      then have "snd (fetch_loop td pn src tp page acc reqs) = reqs @ [page..<page + 1]"
        using lt by (simp add: fetch_loop.simps)
      then show ?thesis using "1.prems" by (intro exI[of _ 1]) simp
    next
      case (Page results)
      let ?acc' = "process_results td pn acc results"
      show ?thesis
      proof (cases "results = [] \<or> int (length ?acc') \<ge> tp \<or> page + 1 > 50")
        case True
        then have "snd (fetch_loop td pn src tp page acc reqs) = reqs @ [page..<page + 1]"
          using lt Page by (auto simp add: fetch_loop.simps[of td pn src tp page] Let_def)
        then show ?thesis using "1.prems" by (intro exI[of _ 1]) simp
      next
        case False
        then have eq: "fetch_loop td pn src tp page acc reqs
                 = fetch_loop td pn src tp (page + 1) ?acc' (reqs @ [page])"
          using lt Page by (simp add: fetch_loop.simps[of td pn src tp page] Let_def)
        from False have le: "page + 1 \<le> 50" by simp
        from "1.IH"[OF _ Page _ refl _ _ le] lt False
        obtain n where n: "snd (fetch_loop td pn src tp (page + 1) ?acc' (reqs @ [page]))
              = (reqs @ [page]) @ [page + 1..<page + 1 + n]" "page + 1 + n \<le> 51"
          by auto
        have "[page..<page + (n + 1)] = page # [page + 1..<page + 1 + n]"
          by (simp add: upt_rec[of page])
        then show ?thesis using n eq by (intro exI[of _ "n + 1"]) simp
      qed
    qed
  qed
qed

lemma fetch_loop_requests_daily:
  "page \<le> 50 \<Longrightarrow> \<exists>n. snd (fetch_loop_daily td pn src tp page acc reqs) = reqs @ [page..<page + n] \<and> page + n \<le> 51"
proof (induction td pn src tp page acc reqs rule: fetch_loop_daily.induct)
  case (1 td pn src tp page acc reqs)
  have one: "reqs @ [page] = reqs @ [page..<page + 1]" by simp
  show ?case
  proof (cases "int (length acc) < tp")
    case False
    then have "snd (fetch_loop_daily td pn src tp page acc reqs) = reqs @ [page..<page + 0]"
      by (simp add: fetch_loop_daily.simps)
    then show ?thesis using "1.prems" by (intro exI[of _ 0]) simp
  next
    case lt: True
    show ?thesis
    proof (cases "src page")
      case TransportError
      then have "snd (fetch_loop_daily td pn src tp page acc reqs) = reqs @ [page..<page + 1]"
        using lt by (simp add: fetch_loop_daily.simps)
      then show ?thesis using "1.prems" by (intro exI[of _ 1]) simp
    next
      case (Page results)
      let ?acc' = "process_results_daily td pn acc results"
      show ?thesis
      proof (cases "results = [] \<or> int (length ?acc') \<ge> tp \<or> page + 1 > 50")
        case True
        then have "snd (fetch_loop_daily td pn src tp page acc reqs) = reqs @ [page..<page + 1]"
          using lt Page by (auto simp add: fetch_loop_daily.simps[of td pn src tp page] Let_def)
        then show ?thesis using "1.prems" by (intro exI[of _ 1]) simp
      next
        case False
        then have eq: "fetch_loop_daily td pn src tp page acc reqs
                 = fetch_loop_daily td pn src tp (page + 1) ?acc' (reqs @ [page])"
          using lt Page by (simp add: fetch_loop_daily.simps[of td pn src tp page] Let_def)
        from False have le: "page + 1 \<le> 50" by simp
        from "1.IH"[OF _ Page _ refl _ _ le] lt False
        obtain n where n: "snd (fetch_loop_daily td pn src tp (page + 1) ?acc' (reqs @ [page]))
              = (reqs @ [page]) @ [page + 1..<page + 1 + n]" "page + 1 + n \<le> 51"
          by auto
        have "[page..<page + (n + 1)] = page # [page + 1..<page + 1 + n]"
          by (simp add: upt_rec[of page])
        then show ?thesis using n eq by (intro exI[of _ "n + 1"]) simp
      qed
    qed
  qed
qed

lemma requests_extract:
  "requests (extract_measurements_from_sensor td srt src pn tp) = snd (fetch_loop td pn src tp 1 [] [])"
  by (simp add: extract_measurements_from_sensor_def split: prod.splits option.splits)

lemma requests_extract_daily:
  "requests (extract_daily_measurements_from_sensor td srt src pn tp)
     = snd (fetch_loop_daily td pn src tp 1 [] [])"
  by (simp add: extract_daily_measurements_from_sensor_def split: prod.splits option.splits)

lemma ex_endless_accumulate:
  "length (accumulate ex_to_datetime ''no2'' ex_endless_source acc ps) = length acc + length ps"
  by (induction ps arbitrary: acc) (simp_all add: ex_endless_source_def ex_record_kept)

lemma ex_endless_accumulate_daily:
  "length (accumulate_daily ex_to_datetime ''no2'' ex_endless_source acc ps) = length acc + length ps"
  by (induction ps arbitrary: acc) (simp_all add: ex_endless_source_def ex_record_kept_daily)

text \<open>
  Claim C6. The fetch loop terminates for every source (both loops are total functions,
  their termination is proved above) and requests the pages 1 to n in order, for some n
  of at most 50, however many non-empty pages the source can supply. When the pages 1 to
  50 are all non-empty and the accumulator stays below the target, the 50 pages are
  requested and the fetch returns the measurements they accumulated, all of them and no
  other, in ascending order of the key: reaching the ceiling is not a failure.
\<close>

theorem page_ceiling:
  "(\<exists>n\<le>50. requests (extract_measurements_from_sensor td srt src pn tp) = [1..<1 + n]) \<and>
   (\<exists>n\<le>50. requests (extract_daily_measurements_from_sensor td srt src pn tp) = [1..<1 + n]) \<and>
   (sorts_by_key srt \<and> (\<forall>p. 1 \<le> p \<and> p \<le> 50 \<longrightarrow> (\<exists>rs. src p = Page rs \<and> rs \<noteq> [])) \<and>
    int (length (accumulate td pn src [] [1..<51])) < tp \<longrightarrow>
      requests (extract_measurements_from_sensor td srt src pn tp) = [1..<51] \<and>
      sorted (map fst (series (extract_measurements_from_sensor td srt src pn tp))) \<and>
      mset (series (extract_measurements_from_sensor td srt src pn tp))
        = mset (accumulate td pn src [] [1..<51])) \<and>
   (sorts_by_key srt \<and> (\<forall>p. 1 \<le> p \<and> p \<le> 50 \<longrightarrow> (\<exists>rs. src p = Page rs \<and> rs \<noteq> [])) \<and>
    int (length (accumulate_daily td pn src [] [1..<51])) < tp \<longrightarrow>
      requests (extract_daily_measurements_from_sensor td srt src pn tp) = [1..<51] \<and>
      sorted (map fst (series (extract_daily_measurements_from_sensor td srt src pn tp))) \<and>
      mset (series (extract_daily_measurements_from_sensor td srt src pn tp))
        = mset (accumulate_daily td pn src [] [1..<51]))"
proof (intro conjI impI)
  obtain n where "snd (fetch_loop td pn src tp 1 [] []) = [] @ [1..<1 + n]" "1 + n \<le> 51"
    using fetch_loop_requests[of 1 td pn src tp "[]" "[]"] by auto
  then show "\<exists>n\<le>50. requests (extract_measurements_from_sensor td srt src pn tp) = [1..<1 + n]"
    by (intro exI[of _ n]) (simp add: requests_extract)
next
  obtain n where "snd (fetch_loop_daily td pn src tp 1 [] []) = [] @ [1..<1 + n]" "1 + n \<le> 51"
    using fetch_loop_requests_daily[of 1 td pn src tp "[]" "[]"] by auto
  then show "\<exists>n\<le>50. requests (extract_daily_measurements_from_sensor td srt src pn tp) = [1..<1 + n]"
    by (intro exI[of _ n]) (simp add: requests_extract_daily)
next
  assume a: "sorts_by_key srt \<and> (\<forall>p. 1 \<le> p \<and> p \<le> 50 \<longrightarrow> (\<exists>rs. src p = Page rs \<and> rs \<noteq> [])) \<and>
    int (length (accumulate td pn src [] [1..<51])) < tp"
  let ?acc = "accumulate td pn src [] [1..<51]"
  have small: "int (length ?acc) \<le> tp" using a by simp
  have "fetch_loop td pn src tp 1 [] [] = (Some ?acc, [] @ [1..<51])"
    using a by (intro fetch_loop_ceiling) auto
  then have ext: "extract_measurements_from_sensor td srt src pn tp
      = \<lparr>series = sort_and_trim srt tp ?acc, requests = [1..<51]\<rparr>"
    by (simp add: extract_measurements_from_sensor_def)
  show "requests (extract_measurements_from_sensor td srt src pn tp) = [1..<51]"
    by (simp add: ext)
  show "sorted (map fst (series (extract_measurements_from_sensor td srt src pn tp)))"
    using a small by (simp add: ext sort_and_trim_small)
  show "mset (series (extract_measurements_from_sensor td srt src pn tp)) = mset ?acc"
    using a small by (simp add: ext sort_and_trim_small)
next
  assume a: "sorts_by_key srt \<and> (\<forall>p. 1 \<le> p \<and> p \<le> 50 \<longrightarrow> (\<exists>rs. src p = Page rs \<and> rs \<noteq> [])) \<and>
    int (length (accumulate_daily td pn src [] [1..<51])) < tp"
  let ?acc = "accumulate_daily td pn src [] [1..<51]"
  have small: "int (length ?acc) \<le> tp" using a by simp
  have "fetch_loop_daily td pn src tp 1 [] [] = (Some ?acc, [] @ [1..<51])"
    using a by (intro fetch_loop_ceiling_daily) auto
  then have ext: "extract_daily_measurements_from_sensor td srt src pn tp
      = \<lparr>series = sort_and_trim srt tp ?acc, requests = [1..<51]\<rparr>"
    by (simp add: extract_daily_measurements_from_sensor_def)
  show "requests (extract_daily_measurements_from_sensor td srt src pn tp) = [1..<51]"
    by (simp add: ext)
  show "sorted (map fst (series (extract_daily_measurements_from_sensor td srt src pn tp)))"
    using a small by (simp add: ext sort_and_trim_small)
  show "mset (series (extract_daily_measurements_from_sensor td srt src pn tp)) = mset ?acc"
    using a small by (simp add: ext sort_and_trim_small)
qed

theorem page_ceiling_witness:
  "requests (extract_measurements_from_sensor ex_to_datetime ex_sort_values ex_endless_source ''no2'' 100) = [1..<51] \<and>
   length (series (extract_measurements_from_sensor ex_to_datetime ex_sort_values ex_endless_source ''no2'' 100)) = 50 \<and>
   requests (extract_daily_measurements_from_sensor ex_to_datetime ex_sort_values ex_endless_source ''no2'' 100) = [1..<51] \<and>
   length (series (extract_daily_measurements_from_sensor ex_to_datetime ex_sort_values ex_endless_source ''no2'' 100)) = 50"
proof -
  have pages: "\<forall>p. 1 \<le> p \<and> p \<le> 50 \<longrightarrow> (\<exists>rs. ex_endless_source p = Page rs \<and> rs \<noteq> [])"
    by (simp add: ex_endless_source_def)
  have l1: "int (length (accumulate ex_to_datetime ''no2'' ex_endless_source [] [1..<51])) < 100"
    by (simp add: ex_endless_accumulate)
  have l2: "int (length (accumulate_daily ex_to_datetime ''no2'' ex_endless_source [] [1..<51])) < 100"
    by (simp add: ex_endless_accumulate_daily)
  note t = page_ceiling [of ex_to_datetime ex_sort_values ex_endless_source "''no2''" 100]
  have r1: "requests (extract_measurements_from_sensor ex_to_datetime ex_sort_values
        ex_endless_source ''no2'' 100) = [1..<51]"
    and m1: "mset (series (extract_measurements_from_sensor ex_to_datetime ex_sort_values
        ex_endless_source ''no2'' 100))
      = mset (accumulate ex_to_datetime ''no2'' ex_endless_source [] [1..<51])"
    and r2: "requests (extract_daily_measurements_from_sensor ex_to_datetime ex_sort_values
        ex_endless_source ''no2'' 100) = [1..<51]"
    and m2: "mset (series (extract_daily_measurements_from_sensor ex_to_datetime ex_sort_values
        ex_endless_source ''no2'' 100))
      = mset (accumulate_daily ex_to_datetime ''no2'' ex_endless_source [] [1..<51])"
    using t pages l1 l2 sorts_by_key_stable(2) by blast+
  show ?thesis
    using r1 r2 mset_eq_length[OF m1] mset_eq_length[OF m2]
    by (simp add: ex_endless_accumulate ex_endless_accumulate_daily del: upt_rec_numeral)
qed

section \<open>Records that raise\<close>

lemma ex_bad_record_raises:
  "process_record ex_to_datetime ''no2'' ex_bad_record = Raised"
  "process_record_daily ex_to_datetime ''no2'' ex_bad_record = Raised"
  by (simp_all add: process_record_def process_record_daily_def ex_bad_record_def
      ex_to_datetime_def dict_get_def dict_get_default_def)

lemma unparseable_raises:
  "s \<noteq> [] \<Longrightarrow> td s = None \<Longrightarrow>
   process_record td pn (r\<lparr>period := Present (Present (Present s))\<rparr>) = Raised"
  "s \<noteq> [] \<Longrightarrow> td s = None \<Longrightarrow>
   process_record_daily td pn (r\<lparr>period := Present (Present (Present s))\<rparr>) = Raised"
  by (simp_all add: process_record_def process_record_daily_def dict_get_def dict_get_default_def)

lemma process_results_drop_raised:
  "process_record td pn r = Raised \<Longrightarrow>
   process_results td pn acc (rs1 @ r # rs2) = process_results td pn acc (rs1 @ rs2)"
  by (simp add: process_results_append kept_of_def)

lemma process_results_drop_raised_daily:
  "process_record_daily td pn r = Raised \<Longrightarrow>
   process_results_daily td pn acc (rs1 @ r # rs2) = process_results_daily td pn acc (rs1 @ rs2)"
  by (simp add: process_results_append_daily kept_of_def)

lemma extract_drop_raised:
  assumes "process_record td pn r = Raised" "rs1 @ rs2 \<noteq> []"
  shows "extract_measurements_from_sensor td srt (src(k := Page (rs1 @ r # rs2))) pn tp
       = extract_measurements_from_sensor td srt (src(k := Page (rs1 @ rs2))) pn tp"
proof -
  have "fetch_loop td pn (src(k := Page (rs1 @ r # rs2))) tp 1 [] []
      = fetch_loop td pn (src(k := Page (rs1 @ rs2))) tp 1 [] []"
  proof (rule fetch_loop_cong)
    fix p
    show "((src(k := Page (rs1 @ r # rs2))) p = TransportError \<and>
           (src(k := Page (rs1 @ rs2))) p = TransportError) \<or>
          (\<exists>rs rs'. (src(k := Page (rs1 @ r # rs2))) p = Page rs \<and>
             (src(k := Page (rs1 @ rs2))) p = Page rs' \<and> (rs = [] \<longleftrightarrow> rs' = []) \<and>
             (\<forall>a. process_results td pn a rs = process_results td pn a rs'))"
      using assms by (cases "src p") (auto simp: process_results_drop_raised)
  qed
  then show ?thesis by (simp add: extract_measurements_from_sensor_def)
qed

lemma extract_drop_raised_daily:
  assumes "process_record_daily td pn r = Raised" "rs1 @ rs2 \<noteq> []"
  shows "extract_daily_measurements_from_sensor td srt (src(k := Page (rs1 @ r # rs2))) pn tp
       = extract_daily_measurements_from_sensor td srt (src(k := Page (rs1 @ rs2))) pn tp"
proof -
  have "fetch_loop_daily td pn (src(k := Page (rs1 @ r # rs2))) tp 1 [] []
      = fetch_loop_daily td pn (src(k := Page (rs1 @ rs2))) tp 1 [] []"
  proof (rule fetch_loop_cong_daily)
    fix p
    show "((src(k := Page (rs1 @ r # rs2))) p = TransportError \<and>
           (src(k := Page (rs1 @ rs2))) p = TransportError) \<or>
          (\<exists>rs rs'. (src(k := Page (rs1 @ r # rs2))) p = Page rs \<and>
             (src(k := Page (rs1 @ rs2))) p = Page rs' \<and> (rs = [] \<longleftrightarrow> rs' = []) \<and>
             (\<forall>a. process_results_daily td pn a rs = process_results_daily td pn a rs'))"
      using assms by (cases "src p") (auto simp: process_results_drop_raised_daily)
  qed
  then show ?thesis by (simp add: extract_daily_measurements_from_sensor_def)
qed

text \<open>
  Claim C10. A record whose processing raises (an unparseable timestamp string is one
  such record) is skipped by itself. The page it is on accumulates exactly what its other
  records contribute, after everything accumulated before, so the remaining records are
  processed and nothing accumulated is lost. The whole fetch, with its later pages, gives
  the same result as if the record were not on the page, as long as the page has another
  record (a page of such records alone is still a non-empty page).
\<close>

theorem raising_record_skipped:
  "(process_record td pn r = Raised \<longrightarrow>
      process_results td pn acc (rs1 @ r # rs2)
        = acc @ concat (map (\<lambda>x. kept_of (process_record td pn x)) (rs1 @ rs2)) \<and>
      (rs1 @ rs2 \<noteq> [] \<longrightarrow>
         extract_measurements_from_sensor td srt (src(k := Page (rs1 @ r # rs2))) pn tp
           = extract_measurements_from_sensor td srt (src(k := Page (rs1 @ rs2))) pn tp)) \<and>
   (process_record_daily td pn r = Raised \<longrightarrow>
      process_results_daily td pn acc (rs1 @ r # rs2)
        = acc @ concat (map (\<lambda>x. kept_of (process_record_daily td pn x)) (rs1 @ rs2)) \<and>
      (rs1 @ rs2 \<noteq> [] \<longrightarrow>
         extract_daily_measurements_from_sensor td srt (src(k := Page (rs1 @ r # rs2))) pn tp
           = extract_daily_measurements_from_sensor td srt (src(k := Page (rs1 @ rs2))) pn tp)) \<and>
   (s \<noteq> [] \<and> td s = None \<longrightarrow>
      process_record td pn (r\<lparr>period := Present (Present (Present s))\<rparr>) = Raised \<and>
      process_record_daily td pn (r\<lparr>period := Present (Present (Present s))\<rparr>) = Raised)"
proof (intro conjI impI)
  assume "process_record td pn r = Raised"
  then show "process_results td pn acc (rs1 @ r # rs2)
        = acc @ concat (map (\<lambda>x. kept_of (process_record td pn x)) (rs1 @ rs2))"
    by (simp add: process_results_append kept_of_def)
next
  assume "process_record td pn r = Raised" "rs1 @ rs2 \<noteq> []"
  then show "extract_measurements_from_sensor td srt (src(k := Page (rs1 @ r # rs2))) pn tp
           = extract_measurements_from_sensor td srt (src(k := Page (rs1 @ rs2))) pn tp"
    by (rule extract_drop_raised)
next
  assume "process_record_daily td pn r = Raised"
  then show "process_results_daily td pn acc (rs1 @ r # rs2)
        = acc @ concat (map (\<lambda>x. kept_of (process_record_daily td pn x)) (rs1 @ rs2))"
    by (simp add: process_results_append_daily kept_of_def)
next
  assume "process_record_daily td pn r = Raised" "rs1 @ rs2 \<noteq> []"
  then show "extract_daily_measurements_from_sensor td srt (src(k := Page (rs1 @ r # rs2))) pn tp
           = extract_daily_measurements_from_sensor td srt (src(k := Page (rs1 @ rs2))) pn tp"
    by (rule extract_drop_raised_daily)
next
  assume "s \<noteq> [] \<and> td s = None"
  then show "process_record td pn (r\<lparr>period := Present (Present (Present s))\<rparr>) = Raised"
    "process_record_daily td pn (r\<lparr>period := Present (Present (Present s))\<rparr>) = Raised"
    by (simp_all add: unparseable_raises)
qed

theorem raising_record_skipped_witness:
  "process_results ex_to_datetime ''no2'' [(0, 1)] ([ex_record] @ ex_bad_record # [ex_record])
     = [(0, 1), (1704067200, 5), (1704067200, 5)] \<and>
   process_results_daily ex_to_datetime ''no2'' [(0, 1)] ([ex_record] @ ex_bad_record # [ex_record])
     = [(0, 1), (19723, 5), (19723, 5)] \<and>
   extract_measurements_from_sensor ex_to_datetime ex_sort_values
       (ex_endless_source(2 := Page ([ex_record] @ ex_bad_record # [ex_record]))) ''no2'' 4
     = extract_measurements_from_sensor ex_to_datetime ex_sort_values
       (ex_endless_source(2 := Page ([ex_record] @ [ex_record]))) ''no2'' 4 \<and>
   extract_daily_measurements_from_sensor ex_to_datetime ex_sort_values
       (ex_endless_source(2 := Page ([ex_record] @ ex_bad_record # [ex_record]))) ''no2'' 4
     = extract_daily_measurements_from_sensor ex_to_datetime ex_sort_values
       (ex_endless_source(2 := Page ([ex_record] @ [ex_record]))) ''no2'' 4 \<and>
   process_record ex_to_datetime ''no2''
     (ex_bad_record\<lparr>period := Present (Present (Present ''yesterday at noon''))\<rparr>) = Raised"
  using raising_record_skipped [of ex_to_datetime "''no2''" ex_bad_record "[(0, 1)]" "[ex_record]" "[ex_record]"
      ex_sort_values ex_endless_source 2 4 "''yesterday at noon''"]
  by (simp add: ex_bad_record_raises ex_record_kept ex_record_kept_daily kept_of_def
      ex_to_datetime_def)

section \<open>Stopping at the target\<close>

lemma length_process_results_valid:
  "(\<forall>r\<in>set rs. \<exists>m. process_record td pn r = Kept m) \<Longrightarrow>
   length (process_results td pn acc rs) = length acc + length rs"
  by (induction rs arbitrary: acc) auto

lemma process_results_app:
  "process_results td pn acc (xs @ ys) = process_results td pn (process_results td pn acc xs) ys"
  by (simp add: process_results_append)

lemma sorted_take_le_drop:
  assumes "sorted (map f xs)"
  shows "\<forall>d\<in>set (take k xs). \<forall>e\<in>set (drop k xs). f d \<le> f e"
proof -
  have "sorted (map f (take k xs) @ map f (drop k xs))"
    using assms by (simp flip: map_append)
  then show ?thesis by (auto simp: sorted_append)
qed

text \<open>
  Claim C2. The pages of the source hold 1000, 1000 and 200 valid records and the fourth
  page is empty; the target is 1500. The fetch requests the pages 1 and 2 and no other.
  The series it returns has exactly 1500 entries in ascending order of timestamp: they are
  the trailing 1500 of the 2000 accumulated measurements once sorted, so the 500 entries
  left out are none of them more recent than any entry kept.
\<close>

theorem fetch_stops_at_target:
  assumes "sorts_by_key srt"
    and "src 1 = Page p1" "src 2 = Page p2" "src 3 = Page p3" "src 4 = Page []"
    and "length p1 = 1000" "length p2 = 1000" "length p3 = 200"
    and "\<forall>r\<in>set (p1 @ p2 @ p3). \<exists>m. process_record td pn r = Kept m"
  shows "requests (extract_measurements_from_sensor td srt src pn 1500) = [1, 2] \<and>
    length (series (extract_measurements_from_sensor td srt src pn 1500)) = 1500 \<and>
    sorted (map fst (series (extract_measurements_from_sensor td srt src pn 1500))) \<and>
    series (extract_measurements_from_sensor td srt src pn 1500)
      = drop 500 (srt (process_results td pn [] (p1 @ p2))) \<and>
    length (process_results td pn [] (p1 @ p2)) = 2000 \<and>
    (\<exists>dropped. length dropped = 500 \<and>
       mset (dropped @ series (extract_measurements_from_sensor td srt src pn 1500))
         = mset (process_results td pn [] (p1 @ p2)) \<and>
       (\<forall>d\<in>set dropped. \<forall>k\<in>set (series (extract_measurements_from_sensor td srt src pn 1500)).
          fst d \<le> fst k))"
proof -
  let ?a1 = "process_results td pn [] p1"
  let ?a2 = "process_results td pn [] (p1 @ p2)"
  let ?s = "srt ?a2"
  have v1: "\<forall>r\<in>set p1. \<exists>m. process_record td pn r = Kept m"
    and v2: "\<forall>r\<in>set p2. \<exists>m. process_record td pn r = Kept m"
    using assms(9) by auto
  have l1: "length ?a1 = 1000" using length_process_results_valid[OF v1, of "[]"] assms(6) by simp
  have a2: "?a2 = process_results td pn ?a1 p2" by (rule process_results_app)
  have l2: "length ?a2 = 2000"
    using length_process_results_valid[OF v2, of ?a1] l1 assms(7) a2 by simp
  have ne: "p1 \<noteq> []" "p2 \<noteq> []" using assms(6,7) by auto
  have "fetch_loop td pn src 1500 1 [] [] = fetch_loop td pn src 1500 (1 + 1) ?a1 ([] @ [1])"
    using assms(2) ne(1) l1 by (intro fetch_next) simp_all
  then have step1: "fetch_loop td pn src 1500 1 [] [] = fetch_loop td pn src 1500 2 ?a1 [1]"
    by (simp only: one_add_one append_Nil)
  have "fetch_loop td pn src 1500 2 ?a1 [1] = (Some (process_results td pn ?a1 p2), [1] @ [2])"
    using assms(3) ne(2) l1 l2 a2 by (intro fetch_reached) simp_all
  then have step2: "fetch_loop td pn src 1500 2 ?a1 [1] = (Some ?a2, [1, 2])"
    by (simp only: a2 append.simps)
  have loop: "fetch_loop td pn src 1500 1 [] [] = (Some ?a2, [1, 2])"
    by (simp only: step1 step2)
  have ls: "length ?s = 2000" using l2 sorts_by_key_length[OF assms(1)] by simp
  have ser: "series (extract_measurements_from_sensor td srt src pn 1500) = drop 500 ?s"
    using loop l2 ls
    by (simp add: extract_measurements_from_sensor_def sort_and_trim_def limit_rows_drop)
  have req: "requests (extract_measurements_from_sensor td srt src pn 1500) = [1, 2]"
    using loop by (simp add: extract_measurements_from_sensor_def)
  have srt: "sorted (map fst ?s)" using assms(1) by (rule sorts_by_key_sorted)
  have sd: "sorted (map fst (drop 500 ?s))" using srt by (simp add: sorted_wrt_drop flip: drop_map)
  have ld: "length (drop 500 ?s) = 1500" using ls by simp
  have ex: "\<exists>dropped. length dropped = 500 \<and> mset (dropped @ drop 500 ?s) = mset ?a2 \<and>
      (\<forall>d\<in>set dropped. \<forall>k\<in>set (drop 500 ?s). fst d \<le> fst k)"
  proof (intro exI[of _ "take 500 ?s"] conjI)
    show "length (take 500 ?s) = 500" using ls by simp
    have "mset (take 500 ?s @ drop 500 ?s) = mset ?s" by simp
    then show "mset (take 500 ?s @ drop 500 ?s) = mset ?a2"
      using sorts_by_key_mset[OF assms(1)] by simp
    show "\<forall>d\<in>set (take 500 ?s). \<forall>k\<in>set (drop 500 ?s). fst d \<le> fst k"
      using srt by (rule sorted_take_le_drop)
  qed
  show ?thesis
    unfolding ser req using sd ld l2 ex by (intro conjI) simp_all
qed

lemma ex_tally_record_kept:
  "process_record ex_tally_datetime ''no2'' (ex_tally_record i) = Kept (int (Suc i), real i)"
  by (auto simp: process_record_def ex_tally_record_def ex_tally_datetime_def dict_get_def
      dict_get_default_def convert_def lower_other_units)

lemma ex_tally_results:
  "process_results ex_tally_datetime ''no2'' acc (map ex_tally_record is)
     = acc @ map (\<lambda>i. (int (Suc i), real i)) is"
  by (induction "is" arbitrary: acc) (simp_all add: ex_tally_record_kept)

lemma ex_page_length: "length (ex_page lo n) = n"
  by (simp add: ex_page_def)

lemma ex_page_kept:
  "\<forall>r\<in>set (ex_page lo n). \<exists>m. process_record ex_tally_datetime ''no2'' r = Kept m"
  by (auto simp: ex_page_def ex_tally_record_kept)

lemma ex_page_keys:
  "map fst (process_results ex_tally_datetime ''no2'' [] (ex_page lo n @ ex_page lo' n'))
     = map (\<lambda>i. int (Suc i)) (rev [lo..<lo + n] @ rev [lo'..<lo' + n'])"
  by (simp add: ex_page_def ex_tally_results comp_def flip: map_append)

lemma ex_pages_distinct:
  "distinct (map (\<lambda>i. int (Suc i)) (rev [1000..<1000 + 1000] @ rev [0..<0 + 1000]))"
  unfolding distinct_map by (auto simp: inj_on_def simp del: upt_rec_numeral)

lemma ex_pages_unsorted:
  "\<not> sorted (map (\<lambda>i. int (Suc i)) (rev [1000..<1000 + 1000] @ rev [0..<0 + 1000]))"
proof
  assume "sorted (map (\<lambda>i. int (Suc i)) (rev [1000..<1000 + 1000] @ rev [0..<0 + 1000]))"
  then have all: "\<forall>x\<in>set (rev [1000..<1000 + 1000]). \<forall>y\<in>set (rev [0..<0 + 1000]).
      int (Suc x) \<le> int (Suc y)"
    by (simp only: map_append sorted_append set_map) blast
  have m1: "(1500::nat) \<in> set (rev [1000..<1000 + 1000])" by (simp del: upt_rec_numeral)
  have m2: "(3::nat) \<in> set (rev [0..<0 + 1000])" by (simp del: upt_rec_numeral)
  from all m1 m2 have "int (Suc 1500) \<le> int (Suc 3)" by blast
  then show False by simp
qed

theorem fetch_stops_at_target_witness:
  "requests (extract_measurements_from_sensor ex_tally_datetime ex_sort_values ex_paged_source
      ''no2'' 1500) = [1, 2] \<and>
   length (series (extract_measurements_from_sensor ex_tally_datetime ex_sort_values
      ex_paged_source ''no2'' 1500)) = 1500 \<and>
   sorted (map fst (series (extract_measurements_from_sensor ex_tally_datetime ex_sort_values
      ex_paged_source ''no2'' 1500))) \<and>
   distinct (map fst (process_results ex_tally_datetime ''no2'' []
      (ex_page 1000 1000 @ ex_page 0 1000))) \<and>
   \<not> sorted (map fst (process_results ex_tally_datetime ''no2'' []
      (ex_page 1000 1000 @ ex_page 0 1000)))"
proof -
  have v: "\<forall>r\<in>set (ex_page 1000 1000 @ ex_page 0 1000 @ ex_page 2000 200).
      \<exists>m. process_record ex_tally_datetime ''no2'' r = Kept m"
    using ex_page_kept by (simp only: set_append Un_iff) blast
  have s1: "ex_paged_source 1 = Page (ex_page 1000 1000)"
    and s2: "ex_paged_source 2 = Page (ex_page 0 1000)"
    and s3: "ex_paged_source 3 = Page (ex_page 2000 200)"
    and s4: "ex_paged_source 4 = Page []"
    by (simp_all add: ex_paged_source_def)
  note t = fetch_stops_at_target [OF sorts_by_key_stable(2) s1 s2 s3 s4
      ex_page_length ex_page_length ex_page_length v]
  have c4: "distinct (map fst (process_results ex_tally_datetime ''no2'' []
      (ex_page 1000 1000 @ ex_page 0 1000)))"
    unfolding ex_page_keys by (rule ex_pages_distinct)
  have c5: "\<not> sorted (map fst (process_results ex_tally_datetime ''no2'' []
      (ex_page 1000 1000 @ ex_page 0 1000)))"
    unfolding ex_page_keys by (rule ex_pages_unsorted)
  show ?thesis
    using t [THEN conjunct1] t [THEN conjunct2, THEN conjunct1]
      t [THEN conjunct2, THEN conjunct2, THEN conjunct1] c4 c5
    by (intro conjI)
qed

section \<open>Trimming the combined table\<close>

lemma trim_combined_limit: "trim_combined df = limit_rows 10000 df"
  by (simp add: trim_combined_def limit_rows_def)

lemma trim_combined_daily_limit: "trim_combined_daily df = limit_rows 1000 df"
  by (simp add: trim_combined_daily_def limit_rows_def)

lemma drop_as_nth: "drop k xs = map (\<lambda>i. xs ! i) [k..<length xs]"
  by (rule nth_equalityI) simp_all

lemma sorted_limit_rows:
  "0 \<le> n \<Longrightarrow> sorted (map fst df) \<Longrightarrow> sorted (map fst (limit_rows n df))"
  by (simp add: limit_rows_drop sorted_wrt_drop flip: drop_map)

text \<open>
  Claim C9. Trimming a combined table returns its trailing rows, in unchanged order, when
  it has more rows than the limit, and the table itself otherwise: with the limit 10000
  in the sub-daily driver, 1000 in the daily driver, and any limit that is not negative in
  the trim the drivers share with the fetch. A table of 1500 rows trimmed to 1000 keeps
  exactly its rows 501 to 1500 (the indices 500 to 1499). A table in ascending order stays
  in ascending order.
\<close>

theorem trim_keeps_trailing_rows:
  "trim_combined df = (if 10000 < length df then drop (length df - 10000) df else df) \<and>
   trim_combined_daily df = (if 1000 < length df then drop (length df - 1000) df else df) \<and>
   (0 \<le> n \<longrightarrow>
      limit_rows n df = (if n < int (length df) then drop (length df - nat n) df else df)) \<and>
   (length df = 1500 \<longrightarrow> trim_combined_daily df = map (\<lambda>i. df ! i) [500..<1500]) \<and>
   (sorted (map fst df) \<longrightarrow>
      sorted (map fst (trim_combined df)) \<and> sorted (map fst (trim_combined_daily df)))"
proof (intro conjI impI)
  show "trim_combined df = (if 10000 < length df then drop (length df - 10000) df else df)"
    by (simp add: trim_combined_limit limit_rows_drop)
  show "trim_combined_daily df = (if 1000 < length df then drop (length df - 1000) df else df)"
    by (simp add: trim_combined_daily_limit limit_rows_drop)
  show "limit_rows n df = (if n < int (length df) then drop (length df - nat n) df else df)"
    if "0 \<le> n"
  proof (cases "n < int (length df)")
    case True
    then show ?thesis using that by (simp add: limit_rows_drop)
  next
    case False
    then show ?thesis by (simp add: limit_rows_def)
  qed
  show "trim_combined_daily df = map (\<lambda>i. df ! i) [500..<1500]" if "length df = 1500"
    using that drop_as_nth[of 500 df] by (simp add: trim_combined_daily_limit limit_rows_drop)
  show "sorted (map fst (trim_combined df))" if "sorted (map fst df)"
    using that by (simp add: trim_combined_limit sorted_limit_rows)
  show "sorted (map fst (trim_combined_daily df))" if "sorted (map fst df)"
    using that by (simp add: trim_combined_daily_limit sorted_limit_rows)
qed

lemma ex_table_sorted: "sorted (map fst (ex_table n))"
proof -
  have "map fst (ex_table n) = map int [0..<n]" by (simp add: ex_table_def)
  then show ?thesis by (simp add: sorted_map strict_sorted_iff sorted_wrt_mono_rel[of _ "(<)"])
qed

theorem trim_keeps_trailing_rows_witness:
  "trim_combined_daily (ex_table 1500) = drop 500 (ex_table 1500) \<and>
   trim_combined_daily (ex_table 1500) = map (\<lambda>i. ex_table 1500 ! i) [500..<1500] \<and>
   limit_rows 1000 (ex_table 1500) = drop 500 (ex_table 1500) \<and>
   sorted (map fst (trim_combined_daily (ex_table 1500)))"
proof -
  have s: "sorted (map fst (ex_table 1500))" by (rule ex_table_sorted)
  have l: "length (ex_table 1500) = 1500" by (simp add: ex_table_def)
  show ?thesis
    using trim_keeps_trailing_rows [of "ex_table 1500" 1000] s l by (auto simp del: upt_rec_numeral)
qed

section \<open>The two variants compared\<close>

text \<open>
  Claim C8, as stated, fails. For a record of one ppm of HCHO the sub-daily variant
  accumulates the value 1230, and the daily variant accumulates the value 1, unconverted,
  under the calendar date instead of the instant.
\<close>

theorem daily_variant_differs:
  "process_record ex_to_datetime ''hcho'' ex_ppm_record = Kept (1704067200, 1230) \<and>
   process_record_daily ex_to_datetime ''hcho'' ex_ppm_record = Kept (19723, 1)"
  by (simp add: process_record_def process_record_daily_def ex_ppm_record_def ex_to_datetime_def
      dict_get_def dict_get_default_def convert_def convert_daily_def lower_ppm lower_names
      date_of_def)

lemma convert_daily_same:
  "lower pn = ''no2'' \<or> lower pn = ''o3'' \<Longrightarrow> convert_daily pn unit v = convert pn unit v"
  by (auto simp: convert_def convert_daily_def)

lemma process_record_daily_same:
  "lower pn = ''no2'' \<or> lower pn = ''o3'' \<Longrightarrow>
   process_record_daily td pn r = map_outcome on_date (process_record td pn r)"
  by (simp add: process_record_def process_record_daily_def on_date_def convert_daily_same
      split: option.splits)

lemma process_results_daily_same:
  "lower pn = ''no2'' \<or> lower pn = ''o3'' \<Longrightarrow>
   process_results_daily td pn (map on_date acc) rs = map on_date (process_results td pn acc rs)"
proof (induction rs arbitrary: acc)
  case Nil
  show ?case by simp
next
  case (Cons r rs)
  show ?case
  proof (cases "process_record td pn r")
    case (Kept m)
    then show ?thesis
      using Cons.IH[OF Cons.prems, of "acc @ [m]"] process_record_daily_same[OF Cons.prems, of td r]
      by simp
  next
    case Raised
    then show ?thesis
      using Cons.IH[OF Cons.prems, of acc] process_record_daily_same[OF Cons.prems, of td r]
      by simp
  next
    case Skipped
    then show ?thesis
      using Cons.IH[OF Cons.prems, of acc] process_record_daily_same[OF Cons.prems, of td r]
      by simp
  qed
qed

lemma fetch_loop_daily_same:
  "lower pn = ''no2'' \<or> lower pn = ''o3'' \<Longrightarrow>
   fetch_loop_daily td pn src tp page (map on_date acc) reqs =
     (map_option (map on_date) (fst (fetch_loop td pn src tp page acc reqs)),
      snd (fetch_loop td pn src tp page acc reqs))"
proof (induction td pn src tp page acc reqs rule: fetch_loop.induct)
  case (1 td pn src tp page acc reqs)
  note pn = "1.prems"
  show ?case
  proof (cases "int (length acc) < tp")
    case False
    then show ?thesis by (simp add: fetch_stop fetch_stop_daily)
  next
    case lt: True
    show ?thesis
    proof (cases "src page")
      case TransportError
      then show ?thesis using lt by (simp add: fetch_error fetch_error_daily)
    next
      case (Page rs)
      let ?acc' = "process_results td pn acc rs"
      have acc': "process_results_daily td pn (map on_date acc) rs = map on_date ?acc'"
        using pn by (rule process_results_daily_same)
      show ?thesis
      proof (cases "rs = [] \<or> tp \<le> int (length ?acc') \<or> 50 \<le> page")
        case True
        then show ?thesis
          using lt Page acc'
          by (auto simp: fetch_loop.simps[of td pn src tp page]
              fetch_loop_daily.simps[of td pn src tp page] Let_def)
      next
        case False
        have IH: "fetch_loop_daily td pn src tp (page + 1) (map on_date ?acc') (reqs @ [page]) =
          (map_option (map on_date) (fst (fetch_loop td pn src tp (page + 1) ?acc' (reqs @ [page]))),
           snd (fetch_loop td pn src tp (page + 1) ?acc' (reqs @ [page])))"
          using "1.IH"[OF _ Page _ refl _ _ pn] lt False by simp
        show ?thesis
          using lt Page acc' False IH
          by (simp add: fetch_loop.simps[of td pn src tp page]
              fetch_loop_daily.simps[of td pn src tp page] Let_def)
      qed
    qed
  qed
qed

lemma ex_tally_record_kept_daily:
  "process_record_daily ex_tally_datetime ''no2'' (ex_tally_record i)
     = Kept (date_of (int (Suc i)), real i)"
  by (auto simp: process_record_daily_def ex_tally_record_def ex_tally_datetime_def dict_get_def
      dict_get_default_def convert_daily_def lower_other_units)

lemma ex_same_day_series:
  "series (extract_measurements_from_sensor ex_tally_datetime ex_sort_values
      ex_same_day_source ''no2'' 1) = [(10, 9)]"
  "series (extract_daily_measurements_from_sensor ex_tally_datetime ex_sort_values
      ex_same_day_source ''no2'' 1) = [(0, 4)]"
  by (simp_all add: extract_measurements_from_sensor_def extract_daily_measurements_from_sensor_def
      fetch_loop.simps[of _ _ _ _ "Suc 0"] fetch_loop_daily.simps[of _ _ _ _ "Suc 0"]
      ex_same_day_source_def ex_tally_record_kept ex_tally_record_kept_daily date_of_def
      sort_and_trim_def limit_rows_def tail_rows_def iloc_from_def ex_sort_values_def)

text \<open>
  Claim C8, amended. The two variants run the same loop and differ in what they do with a
  record: the daily variant keys a measurement by the calendar date of its timestamp, and
  converts ppm for NO2 and O3 only. For NO2 and for O3, what the daily variant makes of a
  record is what the sub-daily variant makes of it with the timestamp truncated to its
  date: the same record is skipped or raises, and the converted value is the same. So a
  page accumulates corresponding lists, and on the same source with the same target both
  loops request the same pages and end with corresponding accumulators, or both with the
  error. Each variant returns the sort and trailing trim of its own accumulator under its
  own key, and the empty series after an error; the two returned series need not
  correspond, as the example of two records of one day with the target 1 shows. For HCHO
  in ppm the sub-daily variant multiplies by 1230 and the daily variant returns the value
  unchanged.
\<close>

theorem daily_variant_same_for_no2_o3:
  "(lower pn = ''no2'' \<or> lower pn = ''o3'' \<longrightarrow>
      process_record_daily td pn r = map_outcome on_date (process_record td pn r) \<and>
      process_results_daily td pn (map on_date acc) rs
        = map on_date (process_results td pn acc rs) \<and>
      fetch_loop_daily td pn src tp 1 [] [] =
        (map_option (map on_date) (fst (fetch_loop td pn src tp 1 [] [])),
         snd (fetch_loop td pn src tp 1 [] [])) \<and>
      requests (extract_daily_measurements_from_sensor td srt src pn tp)
        = requests (extract_measurements_from_sensor td srt src pn tp) \<and>
      (case fst (fetch_loop td pn src tp 1 [] []) of
         None \<Rightarrow>
           series (extract_measurements_from_sensor td srt src pn tp) = [] \<and>
           series (extract_daily_measurements_from_sensor td srt src pn tp) = []
       | Some all_measurements \<Rightarrow>
           series (extract_measurements_from_sensor td srt src pn tp)
             = sort_and_trim srt tp all_measurements \<and>
           series (extract_daily_measurements_from_sensor td srt src pn tp)
             = sort_and_trim srt tp (map on_date all_measurements))) \<and>
   (lower pn = ''hcho'' \<and> lower unit = ''ppm'' \<longrightarrow>
      convert pn unit v = v * 1230 \<and> convert_daily pn unit v = v) \<and>
   series (extract_daily_measurements_from_sensor ex_tally_datetime ex_sort_values
      ex_same_day_source ''no2'' 1) = [(0, 4)] \<and>
   map on_date (series (extract_measurements_from_sensor ex_tally_datetime ex_sort_values
      ex_same_day_source ''no2'' 1)) = [(0, 9)]"
proof (intro conjI impI)
  assume pn: "lower pn = ''no2'' \<or> lower pn = ''o3''"
  show "process_record_daily td pn r = map_outcome on_date (process_record td pn r)"
    using pn by (rule process_record_daily_same)
  show "process_results_daily td pn (map on_date acc) rs
        = map on_date (process_results td pn acc rs)"
    using pn by (rule process_results_daily_same)
  show loop: "fetch_loop_daily td pn src tp 1 [] [] =
        (map_option (map on_date) (fst (fetch_loop td pn src tp 1 [] [])),
         snd (fetch_loop td pn src tp 1 [] []))"
    using fetch_loop_daily_same[OF pn, of td src tp 1 "[]" "[]"] by simp
  show "requests (extract_daily_measurements_from_sensor td srt src pn tp)
        = requests (extract_measurements_from_sensor td srt src pn tp)"
    unfolding requests_extract requests_extract_daily loop by simp
  obtain res reqs where r: "fetch_loop td pn src tp 1 [] [] = (res, reqs)"
    by (cases "fetch_loop td pn src tp 1 [] []")
  then have rd: "fetch_loop_daily td pn src tp 1 [] [] = (map_option (map on_date) res, reqs)"
    using loop by simp
  show "case fst (fetch_loop td pn src tp 1 [] []) of
         None \<Rightarrow>
           series (extract_measurements_from_sensor td srt src pn tp) = [] \<and>
           series (extract_daily_measurements_from_sensor td srt src pn tp) = []
       | Some all_measurements \<Rightarrow>
           series (extract_measurements_from_sensor td srt src pn tp)
             = sort_and_trim srt tp all_measurements \<and>
           series (extract_daily_measurements_from_sensor td srt src pn tp)
             = sort_and_trim srt tp (map on_date all_measurements)"
    unfolding extract_measurements_from_sensor_def extract_daily_measurements_from_sensor_def
      r rd
    by (cases res) simp_all
next
  assume "lower pn = ''hcho'' \<and> lower unit = ''ppm''"
  then show "convert pn unit v = v * 1230" "convert_daily pn unit v = v"
    by (simp_all add: convert_def convert_daily_def)
next
  show "series (extract_daily_measurements_from_sensor ex_tally_datetime ex_sort_values
      ex_same_day_source ''no2'' 1) = [(0, 4)]"
    by (rule ex_same_day_series)
  show "map on_date (series (extract_measurements_from_sensor ex_tally_datetime ex_sort_values
      ex_same_day_source ''no2'' 1)) = [(0, 9)]"
    by (simp add: ex_same_day_series on_date_def date_of_def)
qed

theorem daily_variant_same_for_no2_o3_witness:
  "process_record_daily ex_to_datetime ''NO2'' ex_ppm_record
     = map_outcome on_date (process_record ex_to_datetime ''NO2'' ex_ppm_record) \<and>
   process_record_daily ex_to_datetime ''NO2'' ex_ppm_record = Kept (19723, 1880) \<and>
   requests (extract_daily_measurements_from_sensor ex_to_datetime ex_sort_values ex_failing_source ''NO2'' 2)
     = requests (extract_measurements_from_sensor ex_to_datetime ex_sort_values ex_failing_source ''NO2'' 2) \<and>
   convert ''hcho'' ''PPM'' 2 = 2460 \<and> convert_daily ''hcho'' ''PPM'' 2 = 2"
proof -
  have k: "process_record ex_to_datetime ''NO2'' ex_ppm_record = Kept (1704067200, 1880)"
    by (simp add: process_record_def ex_ppm_record_def ex_to_datetime_def
      dict_get_def dict_get_default_def convert_def lower_ppm lower_names)
  note t1 = daily_variant_same_for_no2_o3 [of "''NO2''" ex_to_datetime ex_ppm_record "[]" "[]"
      ex_failing_source 2 ex_sort_values]
  note t2 = daily_variant_same_for_no2_o3 [of "''hcho''" _ _ _ _ _ _ _ "''PPM''" 2]
  have n: "lower ''NO2'' = ''no2'' \<or> lower ''NO2'' = ''o3''" by (simp add: lower_names)
  have h: "lower ''hcho'' = ''hcho'' \<and> lower ''PPM'' = ''ppm''" by (simp add: lower_names lower_ppm)
  from t1 n have a1: "process_record_daily ex_to_datetime ''NO2'' ex_ppm_record
      = map_outcome on_date (process_record ex_to_datetime ''NO2'' ex_ppm_record)"
    and a2: "requests (extract_daily_measurements_from_sensor ex_to_datetime ex_sort_values
        ex_failing_source ''NO2'' 2)
      = requests (extract_measurements_from_sensor ex_to_datetime ex_sort_values
        ex_failing_source ''NO2'' 2)"
    by blast+
  from t2 h have a3: "convert ''hcho'' ''PPM'' 2 = 2 * 1230" "convert_daily ''hcho'' ''PPM'' 2 = 2"
    by blast+
  show ?thesis using a1 a2 a3 k by (simp add: on_date_def date_of_def)
qed

section \<open>Daily aggregation: the means\<close>

lemma py_sorted_set_props:
  "sorted (py_sorted_set xs)" "distinct (py_sorted_set xs)" "set (py_sorted_set xs) = set xs"
  by (simp_all add: py_sorted_set_def)




















section \<open>Daily aggregation of daily input\<close>








section \<open>The combined table\<close>

lemma timestamps_of_eq: "timestamps_of df = map fst df"
  by (simp add: timestamps_of_def)

lemma matches_distinct:
  "distinct (map fst df) \<Longrightarrow>
   map snd (filter (\<lambda>m. fst m = t) df) = (case map_of df t of None \<Rightarrow> [] | Some v \<Rightarrow> [v])"
proof (induction df)
  case Nil
  show ?case by simp
next
  case (Cons m df)
  show ?case
  proof (cases "fst m = t")
    case True
    then have "t \<notin> fst ` set df" using Cons.prems by auto
    then have "filter (\<lambda>m. fst m = t) df = []" by (auto simp: filter_empty_conv)
    then show ?thesis using True by (cases m) simp
  next
    case False
    then show ?thesis using Cons by (cases m) simp
  qed
qed

lemma merge_left_distinct:
  "distinct (map fst df) \<Longrightarrow>
   merge_left rows df = map (\<lambda>(t, cells). (t, cells @ [map_of df t])) rows"
  by (induction rows) (auto simp: merge_left_def matches_distinct split: option.splits)

lemma add_column_distinct:
  "distinct (map fst df) \<Longrightarrow>
   add_column rows df = map (\<lambda>(t, cells). (t, cells @ [map_of df t])) rows"
  by (cases "df = []") (simp_all add: add_column_def nan_column_def merge_left_distinct)

lemma combine_series_distinct:
  assumes "distinct (map fst a)" "distinct (map fst b)" "distinct (map fst c)"
  shows "combine_series a b c =
     map (\<lambda>t. (t, [map_of a t, map_of b t, map_of c t]))
       (py_sorted_set (map fst a @ map fst b @ map fst c))"
  by (simp add: combine_series_def timestamps_of_eq add_column_distinct[OF assms(1)]
      add_column_distinct[OF assms(2)] add_column_distinct[OF assms(3)] comp_def)

lemma ex_repeating_series:
  "series (extract_measurements_from_sensor ex_to_datetime ex_sort_values ex_repeating_source ''no2'' 10)
     = [(1704067200, 5), (1704067200, 5)]"
  by (simp add: extract_measurements_from_sensor_def fetch_loop.simps[of _ _ _ _ "Suc 0"]
      fetch_loop.simps[of _ _ _ _ "Suc (Suc 0)"] fetch_loop.simps[of _ _ _ _ 2]
      ex_repeating_source_def ex_record_kept sort_and_trim_def limit_rows_def
      ex_sort_values_def)

text \<open>
  Claim C4, as stated, fails. When the NO2 series has two measurements at one timestamp,
  the left merge gives that timestamp two rows: it is a key twice. The fetch returns such
  a series when a page holds a record twice.
\<close>

theorem duplicate_timestamp_twice_a_key:
  "combine_series [(1, 5), (1, 6)] [] [] = [(1, [Some 5, None, None]), (1, [Some 6, None, None])] \<and>
   combine_series
       (series (extract_measurements_from_sensor ex_to_datetime ex_sort_values ex_repeating_source ''no2'' 10))
       [] []
     = [(1704067200, [Some 5, None, None]), (1704067200, [Some 5, None, None])]"
  by (simp add: ex_repeating_series combine_series_def timestamps_of_def py_sorted_set_def
      add_column_def merge_left_def nan_column_def)

text \<open>
  Claim C4, amended. When no input series has two measurements at one timestamp, the
  combined table has its keys in ascending order, every key once, and its keys are exactly
  the timestamps that occur in some input series. The cells of a row are what the NO2, the
  O3 and the HCHO series have at the timestamp of the row: a cell is absent exactly when
  the series has no measurement at that timestamp, and holds the measured value
  otherwise. When all input series are empty the table is empty.
\<close>

theorem combined_table_keys:
  assumes "distinct (map fst a)" "distinct (map fst b)" "distinct (map fst c)"
  shows "sorted (map fst (combine_series a b c)) \<and>
    distinct (map fst (combine_series a b c)) \<and>
    set (map fst (combine_series a b c)) = fst ` set a \<union> fst ` set b \<union> fst ` set c \<and>
    (\<forall>row\<in>set (combine_series a b c).
       snd row = [map_of a (fst row), map_of b (fst row), map_of c (fst row)] \<and>
       (map_of a (fst row) = None \<longleftrightarrow> fst row \<notin> fst ` set a) \<and>
       (map_of b (fst row) = None \<longleftrightarrow> fst row \<notin> fst ` set b) \<and>
       (map_of c (fst row) = None \<longleftrightarrow> fst row \<notin> fst ` set c)) \<and>
    (\<forall>t v. (map_of a t = Some v \<longleftrightarrow> (t, v) \<in> set a) \<and>
           (map_of b t = Some v \<longleftrightarrow> (t, v) \<in> set b) \<and>
           (map_of c t = Some v \<longleftrightarrow> (t, v) \<in> set c)) \<and>
    combine_series [] [] [] = []"
proof -
  let ?ts = "py_sorted_set (map fst a @ map fst b @ map fst c)"
  have keys: "map fst (combine_series a b c) = ?ts"
    by (simp add: combine_series_distinct[OF assms] comp_def)
  have "sorted (map fst (combine_series a b c))" "distinct (map fst (combine_series a b c))"
    unfolding keys by (simp_all add: py_sorted_set_props)
  moreover have "set (map fst (combine_series a b c)) = fst ` set a \<union> fst ` set b \<union> fst ` set c"
    unfolding keys by (auto simp: py_sorted_set_props)
  moreover have "\<forall>row\<in>set (combine_series a b c).
       snd row = [map_of a (fst row), map_of b (fst row), map_of c (fst row)] \<and>
       (map_of a (fst row) = None \<longleftrightarrow> fst row \<notin> fst ` set a) \<and>
       (map_of b (fst row) = None \<longleftrightarrow> fst row \<notin> fst ` set b) \<and>
       (map_of c (fst row) = None \<longleftrightarrow> fst row \<notin> fst ` set c)"
    by (auto simp: combine_series_distinct[OF assms] map_of_eq_None_iff)
  moreover have "\<forall>t v. (map_of a t = Some v \<longleftrightarrow> (t, v) \<in> set a) \<and>
           (map_of b t = Some v \<longleftrightarrow> (t, v) \<in> set b) \<and>
           (map_of c t = Some v \<longleftrightarrow> (t, v) \<in> set c)"
    using assms by simp
  moreover have "combine_series [] [] [] = []"
    by (simp add: combine_series_def timestamps_of_def py_sorted_set_def add_column_def nan_column_def)
  ultimately show ?thesis by blast
qed

theorem combined_table_keys_witness:
  "combine_series [(1, 5), (2, 6)] [(2, 7), (3, 8)] []
     = [(1, [Some 5, None, None]), (2, [Some 6, Some 7, None]), (3, [None, Some 8, None])] \<and>
   sorted (map fst (combine_series [(1, 5), (2, 6)] [(2, 7), (3, 8)] [])) \<and>
   distinct (map fst (combine_series [(1, 5), (2, 6)] [(2, 7), (3, 8)] [])) \<and>
   set (map fst (combine_series [(1, 5), (2, 6)] [(2, 7), (3, 8)] [])) = {1, 2, 3}"
proof -
  have v: "combine_series [(1, 5), (2, 6)] [(2, 7), (3, 8)] []
     = [(1, [Some 5, None, None]), (2, [Some 6, Some 7, None]), (3, [None, Some 8, None])]"
    by (simp add: combine_series_def timestamps_of_def py_sorted_set_def add_column_def
      merge_left_def nan_column_def)
  have d: "distinct (map fst [(1::int, 5::real), (2, 6)])"
    "distinct (map fst [(2::int, 7::real), (3, 8)])" "distinct (map fst ([] :: (int \<times> real) list))"
    by simp_all
  show ?thesis
    using combined_table_keys [OF d] v by auto
qed

end
